theory Spec2Isabelle
  imports Complex_Main "HOL-Library.Multiset"
begin

section \<open>Values of the host language\<close>

text \<open>
  The leaderboard service is TypeScript. Three operations of the JavaScript engine
  decide results but are not part of the repository: \<^verbatim>\<open>JSON.parse\<close>,
  \<^verbatim>\<open>String.prototype.localeCompare\<close> (locale dependent) and the
  double-precision expression \<^verbatim>\<open>Math.round(p * (m / 100))\<close>. They are
  fields of an \<open>engine\<close> record that every function using them receives, so each
  theorem below holds for whatever the engine computes.

  A number obtained from \<^verbatim>\<open>JSON.parse\<close> is a finite double or an infinity;
  negative zero is identified with zero (the code only tests truthiness and uses
  the value as a \<^verbatim>\<open>Map\<close> key, and both treat the two zeros alike).
\<close>

datatype jsnum = Finite rat | PosInfinity | NegInfinity

datatype jsval =
    Undefined
  | Null
  | Bool bool
  | Num jsnum
  | Str string
  | Arr "jsval list"
  | Obj "(string \<times> jsval) list"

text \<open>
  \<open>Obj ps\<close> lists the own properties of an object in the engine's enumeration
  order (integer-like keys first, then the others in insertion order).
\<close>

datatype js_error = SyntaxError | TypeError

record engine =
  JSON_parse :: "string \<Rightarrow> jsval option"
  localeCompare :: "string \<Rightarrow> string \<Rightarrow> int"
  round_scaled :: "int \<Rightarrow> int option \<Rightarrow> int"

text \<open>
  \<open>JSON_parse E s = None\<close> stands for the \<^verbatim>\<open>SyntaxError\<close> thrown on text that
  is not JSON. \<open>round_scaled E p m\<close> is
  \<^verbatim>\<open>Math.round(p * ((m ?? 100) / 100))\<close>, an integer.
\<close>

fun truthy :: "jsval \<Rightarrow> bool" where
  "truthy Undefined = False"
| "truthy Null = False"
| "truthy (Bool b) = b"
| "truthy (Num n) = (n \<noteq> Finite 0)"
| "truthy (Str s) = (s \<noteq> [])"
| "truthy (Arr xs) = True"
| "truthy (Obj ps) = True"

text \<open>Truthiness of a \<^verbatim>\<open>string | null\<close>: neither null nor empty.\<close>

fun truthy_str :: "string option \<Rightarrow> bool" where
  "truthy_str None = False"
| "truthy_str (Some s) = (s \<noteq> [])"

text \<open>\<^verbatim>\<open>s || d\<close> on a \<^verbatim>\<open>string | null\<close>.\<close>

fun or_default :: "string option \<Rightarrow> string \<Rightarrow> string" where
  "or_default None d = d"
| "or_default (Some s) d = (if s = [] then d else s)"

section \<open>Scoring: traditional points\<close>

definition TRADITIONAL_FIRST_PLACE :: int where
  "TRADITIONAL_FIRST_PLACE = 100"

definition TRADITIONAL_STEP :: int where
  "TRADITIONAL_STEP = 5"

definition calculateTraditionalPoints :: "int \<Rightarrow> int" where
  "calculateTraditionalPoints place =
     (if place \<le> 0 then TRADITIONAL_FIRST_PLACE
      else max 0 (TRADITIONAL_FIRST_PLACE - (place - 1) * TRADITIONAL_STEP))"

section \<open>Rank assignment\<close>

record ScoreEntry =
  se_userId :: string
  se_value :: "int option"
  se_status :: string
  se_sortKey :: "string option"

text \<open>
  The loop of \<^verbatim>\<open>assignRanks\<close>: \<open>i\<close> is the index of the entry at the head of
  the remaining list, the other three arguments are the loop's variables.
\<close>

fun assignRanks_loop ::
  "nat \<Rightarrow> int \<Rightarrow> string option \<Rightarrow> int option \<Rightarrow> ScoreEntry list \<Rightarrow> (ScoreEntry \<times> int) list"
where
  "assignRanks_loop i currentRank prevSortKey prevValue [] = []"
| "assignRanks_loop i currentRank prevSortKey prevValue (entry # rest) =
     (let currentRank' =
        (if truthy_str (se_sortKey entry) \<and> prevSortKey \<noteq> None then
           (if se_sortKey entry \<noteq> prevSortKey then int i + 1 else currentRank)
         else if prevValue \<noteq> None \<and> se_value entry \<noteq> prevValue then int i + 1
         else currentRank)
      in (entry, currentRank') #
         assignRanks_loop (Suc i) currentRank' (se_sortKey entry) (se_value entry) rest)"

definition assignRanks :: "ScoreEntry list \<Rightarrow> (ScoreEntry \<times> int) list" where
  "assignRanks sorted_entries = assignRanks_loop 0 1 None None sorted_entries"

text \<open>
  The comparator given to \<^verbatim>\<open>active.sort\<close>: by sort key when both entries have a
  non-empty one, otherwise by value with a missing value read as 0.
\<close>

definition value_or_zero :: "int option \<Rightarrow> int" where
  "value_or_zero v = (case v of None \<Rightarrow> 0 | Some n \<Rightarrow> n)"

definition compare_active :: "engine \<Rightarrow> ScoreEntry \<Rightarrow> ScoreEntry \<Rightarrow> int" where
  "compare_active E a b =
     (case (se_sortKey a, se_sortKey b) of
        (Some ka, Some kb) \<Rightarrow>
          if ka \<noteq> [] \<and> kb \<noteq> [] then localeCompare E ka kb
          else value_or_zero (se_value a) - value_or_zero (se_value b)
      | _ \<Rightarrow> value_or_zero (se_value a) - value_or_zero (se_value b))"

text \<open>
  \<^verbatim>\<open>Array.prototype.sort\<close> with a comparator is a stable sort: an element moves in
  front of another only when the comparator puts it strictly first. It is modelled
  as a stable insertion sort. For a comparator that is not a consistent order the
  language leaves the resulting order to the engine; nothing proved below depends
  on the order of the active entries.
\<close>

fun insert_by :: "('a \<Rightarrow> 'a \<Rightarrow> int) \<Rightarrow> 'a \<Rightarrow> 'a list \<Rightarrow> 'a list" where
  "insert_by cmp x [] = [x]"
| "insert_by cmp x (y # ys) =
     (if cmp x y \<le> 0 then x # y # ys else y # insert_by cmp x ys)"

definition js_sort :: "('a \<Rightarrow> 'a \<Rightarrow> int) \<Rightarrow> 'a list \<Rightarrow> 'a list" where
  "js_sort cmp xs = foldr (insert_by cmp) xs []"

section \<open>Affiliate name from registration metadata\<close>

text \<open>
  Reading one of the properties \<^verbatim>\<open>affiliateName\<close> and \<^verbatim>\<open>affiliates\<close>
  of a parsed value: a \<^verbatim>\<open>TypeError\<close> on null, the own property of an object,
  and undefined on everything else (no prototype defines these two names).
\<close>

fun get_prop :: "jsval \<Rightarrow> string \<Rightarrow> js_error + jsval" where
  "get_prop Undefined k = Inl TypeError"
| "get_prop Null k = Inl TypeError"
| "get_prop (Obj ps) k = Inr (case map_of ps k of None \<Rightarrow> Undefined | Some v \<Rightarrow> v)"
| "get_prop v k = Inr Undefined"

text \<open>
  \<^verbatim>\<open>Object.values\<close>: the property values of an object, the elements of an
  array, the one-character strings of a string, nothing for a number or a
  boolean, a \<^verbatim>\<open>TypeError\<close> for null and undefined.
\<close>

fun Object_values :: "jsval \<Rightarrow> js_error + jsval list" where
  "Object_values Undefined = Inl TypeError"
| "Object_values Null = Inl TypeError"
| "Object_values (Obj ps) = Inr (map snd ps)"
| "Object_values (Arr xs) = Inr xs"
| "Object_values (Str s) = Inr (map (\<lambda>c. Str [c]) s)"
| "Object_values v = Inr []"

definition Unaffiliated :: jsval where
  "Unaffiliated = Str ''Unaffiliated''"

text \<open>The body of the \<^verbatim>\<open>try\<close> block; \<open>Inl\<close> is an exception thrown in it.\<close>

definition parseAffiliateName_try :: "engine \<Rightarrow> string \<Rightarrow> js_error + jsval" where
  "parseAffiliateName_try E metadata =
     (case JSON_parse E metadata of
        None \<Rightarrow> Inl SyntaxError
      | Some parsed \<Rightarrow>
          (case get_prop parsed ''affiliateName'' of
             Inl e \<Rightarrow> Inl e
           | Inr an \<Rightarrow>
               if truthy an then Inr an
               else
                 (case get_prop parsed ''affiliates'' of
                    Inl e \<Rightarrow> Inl e
                  | Inr af \<Rightarrow>
                      if truthy af then
                        (case Object_values af of
                           Inl e \<Rightarrow> Inl e
                         | Inr vs \<Rightarrow>
                             (case vs of
                                Str s # _ \<Rightarrow> Inr (Str s)
                              | _ \<Rightarrow> Inr Unaffiliated))
                      else Inr Unaffiliated)))"

text \<open>
  \<^verbatim>\<open>parseAffiliateName\<close>: the guard on a null or empty metadata, then the
  \<^verbatim>\<open>try\<close> block with its catch-all handler. The result is \<open>Inr\<close> of the
  returned value, or \<open>Inl\<close> of an exception that leaves the function.
\<close>

definition parseAffiliateName :: "engine \<Rightarrow> string option \<Rightarrow> js_error + jsval" where
  "parseAffiliateName E metadata =
     (case metadata of
        None \<Rightarrow> Inr Unaffiliated
      | Some m \<Rightarrow>
          if m = [] then Inr Unaffiliated
          else
            (case parseAffiliateName_try E m of
               Inl e \<Rightarrow> Inr Unaffiliated
             | Inr v \<Rightarrow> Inr v))"

section \<open>The data fetched for one competition\<close>

record competition =
  comp_id :: string
  comp_name :: string

record event =
  ev_id :: string
  trackOrder :: int
  pointsMultiplier :: "int option"
  workoutId :: string
  workoutName :: string
  ev_scheme :: string

record registration =
  regId :: string
  reg_userId :: string
  reg_divisionId :: "string option"
  metadata :: "string option"
  firstName :: "string option"
  lastName :: "string option"
  reg_divisionLabel :: "string option"

record score =
  sc_userId :: string
  competitionEventId :: "string option"
  scoreValue :: "int option"
  sc_status :: string
  sc_sortKey :: "string option"

text \<open>
  The results of the five queries of \<^verbatim>\<open>getLeaderboard\<close>, in the order the
  code awaits them: the competition with the given id, its programming track (the
  track's id), the published track workouts ordered by \<^verbatim>\<open>trackOrder\<close>, the
  registrations whose status is not \<^verbatim>\<open>REMOVED\<close>, and the scores of these
  events and users. The database itself is outside the repository's code.
\<close>

record fetched =
  q_comp :: "competition option"
  q_track :: "string option"
  q_events :: "event list"
  q_registrations :: "registration list"
  q_allScores :: "score list"

section \<open>The leaderboard response\<close>

record AthleteEventResult =
  eventId :: string
  eventName :: string
  points :: int
  rank :: int

record LeaderboardAthlete =
  la_rank :: int
  la_userId :: string
  la_name :: string
  la_affiliateName :: jsval
  la_events :: "AthleteEventResult list"
  la_totalPoints :: int

record DivisionLeaderboard =
  dl_id :: string
  dl_name :: string
  dl_athletes :: "LeaderboardAthlete list"

record GymAthleteEvent =
  ge_eventId :: string
  ge_eventName :: string
  ge_points :: int
  contributing :: bool

record GymAthleteEntry =
  ga_name :: string
  ga_division :: string
  divisionRank :: int
  ga_events :: "GymAthleteEvent list"
  contributingTotal :: int

record GymLeaderboard =
  gl_name :: jsval
  gl_rank :: int
  athleteCount :: nat
  totalScore :: int
  gl_athletes :: "GymAthleteEntry list"

record LeaderboardResponse =
  competition :: competition
  divisions :: "DivisionLeaderboard list"
  gyms :: "GymLeaderboard list"

datatype failure = Competition_not_found | Thrown js_error

section \<open>Insertion-ordered maps\<close>

text \<open>
  A \<^verbatim>\<open>Map\<close> iterates in insertion order, and \<^verbatim>\<open>set\<close> on a key that is
  present replaces the value where it stands. It is an association list.
\<close>

fun map_set :: "'k \<Rightarrow> 'v \<Rightarrow> ('k \<times> 'v) list \<Rightarrow> ('k \<times> 'v) list" where
  "map_set k v [] = [(k, v)]"
| "map_set k v ((k', v') # m) =
     (if k = k' then (k, v) # m else (k', v') # map_set k v m)"

text \<open>
  The grouping idiom \<^verbatim>\<open>const arr = g.get(k) || []; arr.push(x); g.set(k, arr)\<close>:
  \<open>x\<close> goes to the end of the group of \<open>k\<close>, a new group goes to the end of the map.
\<close>

fun group_add :: "'k \<Rightarrow> 'v \<Rightarrow> ('k \<times> 'v list) list \<Rightarrow> ('k \<times> 'v list) list" where
  "group_add k x [] = [(k, [x])]"
| "group_add k x ((k', xs) # g) =
     (if k = k' then (k', xs @ [x]) # g else (k', xs) # group_add k x g)"

definition group_pairs :: "('k \<times> 'v) list \<Rightarrow> ('k \<times> 'v list) list" where
  "group_pairs kvs = foldl (\<lambda>g (k, x). group_add k x g) [] kvs"

section \<open>Step 6: one athlete per user id\<close>

record athlete =
  userId :: string
  name :: string
  affiliateName :: jsval
  divisionId :: string
  divisionLabel :: string
  events :: "AthleteEventResult list"
  totalPoints :: int

definition is_space :: "char \<Rightarrow> bool" where
  "is_space c = (c \<in> set [CHR 0x09, CHR 0x0A, CHR 0x0B, CHR 0x0C, CHR 0x0D, CHR 0x20, CHR 0xA0])"

definition trim :: "string \<Rightarrow> string" where
  "trim s = rev (dropWhile is_space (rev (dropWhile is_space s)))"

definition fullName :: "registration \<Rightarrow> string" where
  "fullName reg =
     (let s = trim (or_default (firstName reg) [] @ '' '' @ or_default (lastName reg) [])
      in if s = [] then ''Unknown'' else s)"

definition make_athlete :: "registration \<Rightarrow> jsval \<Rightarrow> athlete" where
  "make_athlete reg affiliate =
     \<lparr> userId = reg_userId reg,
       name = fullName reg,
       affiliateName = affiliate,
       divisionId = or_default (reg_divisionId reg) ''open'',
       divisionLabel = or_default (reg_divisionLabel reg) ''Open'',
       events = [],
       totalPoints = 0 \<rparr>"

text \<open>The loop over the registrations; an exception would end it.\<close>

fun build_athleteMap ::
  "engine \<Rightarrow> registration list \<Rightarrow> (string \<times> athlete) list \<Rightarrow> js_error + (string \<times> athlete) list"
where
  "build_athleteMap E [] m = Inr m"
| "build_athleteMap E (reg # regs) m =
     (case parseAffiliateName E (metadata reg) of
        Inl e \<Rightarrow> Inl e
      | Inr affiliate \<Rightarrow>
          build_athleteMap E regs (map_set (reg_userId reg) (make_athlete reg affiliate) m))"

section \<open>Step 7: ranks and points per event, within each division\<close>

text \<open>
  The scores of one event, each with the division of its athlete, in the order of
  \<^verbatim>\<open>allScores\<close>; a score of another event or of an unknown user is skipped.
\<close>

definition event_entries ::
  "event \<Rightarrow> score list \<Rightarrow> (string \<times> athlete) list \<Rightarrow> (string \<times> ScoreEntry) list"
where
  "event_entries ev allScores m =
     concat (map (\<lambda>sc.
       if competitionEventId sc \<noteq> Some (ev_id ev) then []
       else
         (case map_of m (sc_userId sc) of
            None \<Rightarrow> []
          | Some a \<Rightarrow>
              [(divisionId a,
                \<lparr> se_userId = sc_userId sc, se_value = scoreValue sc,
                  se_status = sc_status sc, se_sortKey = sc_sortKey sc \<rparr>)])) allScores)"

definition mk_result :: "engine \<Rightarrow> event \<Rightarrow> int \<Rightarrow> AthleteEventResult" where
  "mk_result E ev r =
     \<lparr> eventId = ev_id ev,
       eventName = workoutName ev,
       points = round_scaled E (calculateTraditionalPoints r) (pointsMultiplier ev),
       rank = r \<rparr>"

text \<open>
  What one division contributes for one event: the results pushed for the active
  entries in rank order, then those pushed for the \<^verbatim>\<open>dnf\<close> entries, each with
  the user id whose athlete receives it.
\<close>

definition is_active :: "ScoreEntry \<Rightarrow> bool" where
  "is_active s = (se_status s = ''scored'' \<or> se_status s = ''cap'')"

definition lastActiveRank :: "(ScoreEntry \<times> int) list \<Rightarrow> int" where
  "lastActiveRank ranked = (if ranked = [] then 0 else snd (last ranked))"

definition division_results ::
  "engine \<Rightarrow> event \<Rightarrow> ScoreEntry list \<Rightarrow> (string \<times> AthleteEventResult) list"
where
  "division_results E ev divScores =
     (let active = filter is_active divScores;
          dnfScores = filter (\<lambda>s. se_status s = ''dnf'') divScores;
          ranked = assignRanks (js_sort (compare_active E) active)
      in map (\<lambda>(entry, r). (se_userId entry, mk_result E ev r)) ranked @
         map (\<lambda>entry. (se_userId entry, mk_result E ev (lastActiveRank ranked + 1))) dnfScores)"

text \<open>
  \<^verbatim>\<open>athlete.events.push(r); athlete.totalPoints += r.points\<close> on the athlete
  stored under \<open>uid\<close>; nothing happens when the map has no such key.
\<close>

definition add_result :: "AthleteEventResult \<Rightarrow> athlete \<Rightarrow> athlete" where
  "add_result r a = a\<lparr> events := events a @ [r], totalPoints := totalPoints a + points r \<rparr>"

definition push_result ::
  "(string \<times> athlete) list \<Rightarrow> string \<times> AthleteEventResult \<Rightarrow> (string \<times> athlete) list"
where
  "push_result m ur = map (\<lambda>(k, a). (k, if k = fst ur then add_result (snd ur) a else a)) m"

definition placeholder :: "event \<Rightarrow> AthleteEventResult" where
  "placeholder ev = \<lparr> eventId = ev_id ev, eventName = workoutName ev, points = 0, rank = 0 \<rparr>"

definition fill_missing :: "event \<Rightarrow> (string \<times> athlete) list \<Rightarrow> (string \<times> athlete) list" where
  "fill_missing ev m =
     map (\<lambda>(k, a).
       (k, if list_ex (\<lambda>e. eventId e = ev_id ev) (events a) then a
           else a\<lparr> events := events a @ [placeholder ev] \<rparr>)) m"

definition event_pushes ::
  "engine \<Rightarrow> score list \<Rightarrow> (string \<times> athlete) list \<Rightarrow> event \<Rightarrow> (string \<times> AthleteEventResult) list"
where
  "event_pushes E allScores m ev =
     concat (map (\<lambda>(divId, divScores). division_results E ev divScores)
       (group_pairs (event_entries ev allScores m)))"

definition process_event ::
  "engine \<Rightarrow> score list \<Rightarrow> (string \<times> athlete) list \<Rightarrow> event \<Rightarrow> (string \<times> athlete) list"
where
  "process_event E allScores m ev =
     fill_missing ev (foldl push_result m (event_pushes E allScores m ev))"

definition compute_events ::
  "engine \<Rightarrow> event list \<Rightarrow> score list \<Rightarrow> (string \<times> athlete) list \<Rightarrow> (string \<times> athlete) list"
where
  "compute_events E evs allScores m = foldl (process_event E allScores) m evs"

section \<open>Step 8: division leaderboards\<close>

text \<open>
  The ranking loop shared by divisions and gyms: rank 1 first, and the rank moves
  to the 1-based position whenever a total is strictly below its predecessor's.
  \<open>tie_ranks_from i r prev ts\<close> is the loop at index \<open>i \<ge> 1\<close>.
\<close>

fun tie_ranks_from :: "nat \<Rightarrow> int \<Rightarrow> int \<Rightarrow> int list \<Rightarrow> int list" where
  "tie_ranks_from i r prev [] = []"
| "tie_ranks_from i r prev (t # ts) =
     (let r' = (if t < prev then int i + 1 else r)
      in r' # tie_ranks_from (Suc i) r' t ts)"

fun tie_ranks :: "int list \<Rightarrow> int list" where
  "tie_ranks [] = []"
| "tie_ranks (t # ts) = 1 # tie_ranks_from 1 1 t ts"

definition to_leaderboard_athlete :: "athlete \<Rightarrow> LeaderboardAthlete" where
  "to_leaderboard_athlete a =
     \<lparr> la_rank = 0, la_userId = userId a, la_name = name a,
       la_affiliateName = affiliateName a, la_events = events a,
       la_totalPoints = totalPoints a \<rparr>"

definition rank_athletes :: "LeaderboardAthlete list \<Rightarrow> LeaderboardAthlete list" where
  "rank_athletes athletes =
     (let sorted_athletes = js_sort (\<lambda>a b. la_totalPoints b - la_totalPoints a) athletes
      in map2 (\<lambda>a r. a\<lparr> la_rank := r \<rparr>) sorted_athletes
           (tie_ranks (map la_totalPoints sorted_athletes)))"

definition divisionGroups :: "(string \<times> athlete) list \<Rightarrow> DivisionLeaderboard list" where
  "divisionGroups m =
     map (\<lambda>(d, members).
       \<lparr> dl_id = d,
         dl_name = (case members of [] \<Rightarrow> [] | a # _ \<Rightarrow> divisionLabel a),
         dl_athletes = rank_athletes (map to_leaderboard_athlete members) \<rparr>)
       (group_pairs (map (\<lambda>(k, a). (divisionId a, a)) m))"

section \<open>Step 9: gym leaderboard\<close>

definition TOP_PER_DIVISION :: nat where
  "TOP_PER_DIVISION = 6"

definition divisionRankMap :: "DivisionLeaderboard list \<Rightarrow> string \<Rightarrow> int option" where
  "divisionRankMap divs =
     foldl (\<lambda>m a. m(la_userId a \<mapsto> la_rank a)) Map.empty (concat (map dl_athletes divs))"

text \<open>
  The key of \<^verbatim>\<open>gymAthleteIds\<close> is the athlete's affiliate name. Map keys are
  compared by value when they are primitive and by identity when they are objects
  or arrays; every athlete's parsed metadata is an object of its own, so an object
  or array name is a key no other athlete has.
\<close>

datatype gym_key = ByValue jsval | ByIdentity string

definition gym_key_of :: "athlete \<Rightarrow> gym_key" where
  "gym_key_of a =
     (case affiliateName a of
        Arr xs \<Rightarrow> ByIdentity (userId a)
      | Obj ps \<Rightarrow> ByIdentity (userId a)
      | v \<Rightarrow> ByValue v)"

text \<open>
  The code stores user ids in \<^verbatim>\<open>gymAthleteIds\<close> and reads the athlete back
  with \<^verbatim>\<open>athleteMap.get(uid)!\<close>; the model keeps the athlete, which is the value
  stored under its own user id.
\<close>

definition gymAthleteIds :: "(string \<times> athlete) list \<Rightarrow> (gym_key \<times> athlete list) list" where
  "gymAthleteIds m = group_pairs (map (\<lambda>(k, a). (gym_key_of a, a)) m)"

definition event_points :: "athlete \<Rightarrow> string \<Rightarrow> int" where
  "event_points a eid =
     (case find (\<lambda>e. eventId e = eid) (events a) of None \<Rightarrow> 0 | Some r \<Rightarrow> points r)"

definition byDiv :: "athlete list \<Rightarrow> string \<Rightarrow> (string \<times> (string \<times> int) list) list" where
  "byDiv members eid =
     group_pairs (map (\<lambda>a. (divisionLabel a, (userId a, event_points a eid))) members)"

text \<open>The entries that contribute for one event: the first six of every division.\<close>

definition top_of_event :: "athlete list \<Rightarrow> string \<Rightarrow> (string \<times> int) list" where
  "top_of_event members eid =
     concat (map (\<lambda>(d, divAthletes).
         take TOP_PER_DIVISION (js_sort (\<lambda>a b. snd b - snd a) divAthletes))
       (byDiv members eid))"

definition gym_totalScore :: "athlete list \<Rightarrow> event list \<Rightarrow> int" where
  "gym_totalScore members evs =
     foldl (\<lambda>total ev. foldl (\<lambda>t c. t + snd c) total (top_of_event members (ev_id ev))) 0 evs"

text \<open>\<^verbatim>\<open>contributingMap\<close>, as the pairs (user id, event id) it holds.\<close>

definition contributingMap :: "athlete list \<Rightarrow> event list \<Rightarrow> (string \<times> string) list" where
  "contributingMap members evs =
     concat (map (\<lambda>ev. map (\<lambda>c. (fst c, ev_id ev)) (top_of_event members (ev_id ev))) evs)"

definition gym_events ::
  "(string \<times> string) list \<Rightarrow> event list \<Rightarrow> athlete \<Rightarrow> GymAthleteEvent list"
where
  "gym_events cm evs a =
     map (\<lambda>ev.
       \<lparr> ge_eventId = ev_id ev, ge_eventName = workoutName ev,
         ge_points = event_points a (ev_id ev),
         contributing = ((userId a, ev_id ev) \<in> set cm) \<rparr>) evs"

definition contributing_sum :: "GymAthleteEvent list \<Rightarrow> int" where
  "contributing_sum ges = foldl (\<lambda>t ge. if contributing ge then t + ge_points ge else t) 0 ges"

definition athlete_entry ::
  "(string \<Rightarrow> int option) \<Rightarrow> (string \<times> string) list \<Rightarrow> event list \<Rightarrow> athlete \<Rightarrow> GymAthleteEntry"
where
  "athlete_entry rankMap cm evs a =
     \<lparr> ga_name = name a,
       ga_division = divisionLabel a,
       divisionRank = (case rankMap (userId a) of None \<Rightarrow> 0 | Some r \<Rightarrow> r),
       ga_events = gym_events cm evs a,
       contributingTotal = contributing_sum (gym_events cm evs a) \<rparr>"

definition build_gym ::
  "(string \<Rightarrow> int option) \<Rightarrow> event list \<Rightarrow> athlete list \<Rightarrow> GymLeaderboard"
where
  "build_gym rankMap evs members =
     \<lparr> gl_name = (case members of [] \<Rightarrow> Undefined | a # _ \<Rightarrow> affiliateName a),
       gl_rank = 0,
       athleteCount = length members,
       totalScore = gym_totalScore members evs,
       gl_athletes =
         js_sort (\<lambda>a b. contributingTotal b - contributingTotal a)
           (map (athlete_entry rankMap (contributingMap members evs) evs) members) \<rparr>"

definition rank_gyms :: "GymLeaderboard list \<Rightarrow> GymLeaderboard list" where
  "rank_gyms gs =
     (let nonEmptyGyms = js_sort (\<lambda>a b. totalScore b - totalScore a)
            (filter (\<lambda>g. athleteCount g > 0) gs)
      in map2 (\<lambda>g r. g\<lparr> gl_rank := r \<rparr>) nonEmptyGyms
           (tie_ranks (map totalScore nonEmptyGyms)))"

section \<open>getLeaderboard\<close>

definition empty_response :: "competition \<Rightarrow> LeaderboardResponse" where
  "empty_response c = \<lparr> competition = c, divisions = [], gyms = [] \<rparr>"

definition leaderboard_of ::
  "competition \<Rightarrow> event list \<Rightarrow> (string \<times> athlete) list \<Rightarrow> LeaderboardResponse"
where
  "leaderboard_of c evs m =
     (let divs = divisionGroups m
      in \<lparr> competition = c,
           divisions = divs,
           gyms = rank_gyms (map (\<lambda>(gymName, members). build_gym (divisionRankMap divs) evs members)
                    (gymAthleteIds m)) \<rparr>)"

definition getLeaderboard :: "engine \<Rightarrow> fetched \<Rightarrow> failure + LeaderboardResponse" where
  "getLeaderboard E db =
     (case q_comp db of
        None \<Rightarrow> Inl Competition_not_found
      | Some c \<Rightarrow>
          if q_track db = None then Inr (empty_response c)
          else if q_events db = [] then Inr (empty_response c)
          else if q_registrations db = [] then Inr (empty_response c)
          else
            (case build_athleteMap E (q_registrations db) [] of
               Inl e \<Rightarrow> Inl (Thrown e)
             | Inr athleteMap \<Rightarrow>
                 Inr (leaderboard_of c (q_events db)
                        (compute_events E (q_events db) (q_allScores db) athleteMap))))"

section \<open>Auxiliary notions for the proofs\<close>

text \<open>The keys of a grouping, in the order of their first occurrence.\<close>

definition first_occ :: "'k list \<Rightarrow> 'k list" where
  "first_occ ks = rev (remdups (rev ks))"

text \<open>
  The statuses that give an athlete a result for an event: the active ones and
  \<^verbatim>\<open>dnf\<close>.
\<close>

definition counted_status :: "string \<Rightarrow> bool" where
  "counted_status st = (st = ''scored'' \<or> st = ''cap'' \<or> st = ''dnf'')"

text \<open>
  The user has at most one score row with such a status for each of the events.
  The schema has no unique index on the scores, so the code can receive rows that
  break this.
\<close>

definition one_score_per_event :: "event list \<Rightarrow> string \<Rightarrow> score list \<Rightarrow> bool" where
  "one_score_per_event evs uid allScores =
     list_all (\<lambda>ev.
       length (filter (\<lambda>s. sc_userId s = uid \<and> competitionEventId s = Some (ev_id ev) \<and>
                 counted_status (sc_status s)) allScores) \<le> 1) evs"

text \<open>
  \<^verbatim>\<open>parseAffiliateName\<close> always returns (lemma \<open>parseAffiliateName_Inr\<close>), so
  the loop of step 6 is a fold of \<open>map_set\<close>; \<open>built\<close> is the map it leaves.
\<close>

definition parsed_affiliate :: "engine \<Rightarrow> registration \<Rightarrow> jsval" where
  "parsed_affiliate E reg =
     (case parseAffiliateName E (metadata reg) of Inl e \<Rightarrow> Unaffiliated | Inr v \<Rightarrow> v)"

definition athlete_of_registration :: "engine \<Rightarrow> registration \<Rightarrow> athlete" where
  "athlete_of_registration E reg = make_athlete reg (parsed_affiliate E reg)"

definition built :: "engine \<Rightarrow> registration list \<Rightarrow> (string \<times> athlete) list" where
  "built E regs = foldl (\<lambda>m reg. map_set (reg_userId reg) (athlete_of_registration E reg) m) [] regs"

text \<open>
  What one athlete goes through in one event: the results pushed for the user id,
  in order, then the placeholder when no result of the athlete has the event's id.
\<close>

definition received :: "string \<Rightarrow> (string \<times> AthleteEventResult) list \<Rightarrow> AthleteEventResult list" where
  "received k ps = map snd (filter (\<lambda>ur. fst ur = k) ps)"

definition after_event :: "event \<Rightarrow> AthleteEventResult list \<Rightarrow> athlete \<Rightarrow> athlete" where
  "after_event ev rs a =
     (if list_ex (\<lambda>e. eventId e = ev_id ev) (events a @ rs)
      then a\<lparr> events := events a @ rs, totalPoints := totalPoints a + sum_list (map points rs) \<rparr>
      else a\<lparr> events := events a @ rs @ [placeholder ev],
              totalPoints := totalPoints a + sum_list (map points rs) \<rparr>)"

definition to_entry :: "score \<Rightarrow> ScoreEntry" where
  "to_entry sc = \<lparr> se_userId = sc_userId sc, se_value = scoreValue sc,
     se_status = sc_status sc, se_sortKey = sc_sortKey sc \<rparr>"

text \<open>The fields of an athlete that step 7 never writes.\<close>

definition static :: "athlete \<Rightarrow> athlete" where
  "static a = a\<lparr> events := [], totalPoints := 0 \<rparr>"

definition totals_ok :: "(string \<times> athlete) list \<Rightarrow> bool" where
  "totals_ok m = (\<forall>ka \<in> set m. totalPoints (snd ka) = sum_list (map points (events (snd ka))))"

text \<open>
  The tie rule of the claims about division and gym ranks, on the list of totals
  and the list of ranks of a leaderboard: the totals descend, the first rank is 1,
  an entry with its predecessor's total has its predecessor's rank, and an entry
  with a strictly lower total has its 1-based position as rank.
\<close>

definition tie_ranked :: "int list \<Rightarrow> int list \<Rightarrow> bool" where
  "tie_ranked totals ranks =
     (length ranks = length totals \<and>
      (\<forall>i < length totals.
         (i = 0 \<longrightarrow> ranks ! i = 1) \<and>
         (0 < i \<longrightarrow>
            totals ! i \<le> totals ! (i - 1) \<and>
            (totals ! i = totals ! (i - 1) \<longrightarrow> ranks ! i = ranks ! (i - 1)) \<and>
            (totals ! i < totals ! (i - 1) \<longrightarrow> ranks ! i = int i + 1))))"

text \<open>Every key of the athlete map is the user id of its athlete, and no key repeats.\<close>

definition keyed :: "(string \<times> athlete) list \<Rightarrow> bool" where
  "keyed m = (distinct (map fst m) \<and> list_all (\<lambda>ka. userId (snd ka) = fst ka) m)"

text \<open>
  The affiliate name as the claim about \<^verbatim>\<open>parseAffiliateName\<close> words it
  (\<open>claimed_affiliate\<close>: the truthy \<^verbatim>\<open>affiliateName\<close> of the parsed value, else
  the first value of an \<^verbatim>\<open>affiliates\<close> map when that value is a string, else the
  default), and as the code computes it (\<open>lenient_affiliate\<close>: the first element of
  \<^verbatim>\<open>Object.values(affiliates)\<close> also counts when \<^verbatim>\<open>affiliates\<close> is an array
  or a string). \<open>own_property\<close> is undefined on everything but an object.
\<close>

definition own_property :: "jsval \<Rightarrow> string \<Rightarrow> jsval" where
  "own_property v k =
     (case v of
        Obj ps \<Rightarrow> (case map_of ps k of None \<Rightarrow> Undefined | Some x \<Rightarrow> x)
      | _ \<Rightarrow> Undefined)"

definition first_of_affiliates_map :: "jsval \<Rightarrow> jsval option" where
  "first_of_affiliates_map parsed =
     (case own_property parsed ''affiliates'' of
        Obj ((k, Str s) # _) \<Rightarrow> Some (Str s)
      | _ \<Rightarrow> None)"

definition claimed_affiliate :: "engine \<Rightarrow> string option \<Rightarrow> jsval" where
  "claimed_affiliate E md =
     (case md of
        None \<Rightarrow> Unaffiliated
      | Some m \<Rightarrow>
          (case JSON_parse E m of
             None \<Rightarrow> Unaffiliated
           | Some parsed \<Rightarrow>
               if truthy (own_property parsed ''affiliateName'')
               then own_property parsed ''affiliateName''
               else
                 (case first_of_affiliates_map parsed of
                    None \<Rightarrow> Unaffiliated
                  | Some first \<Rightarrow> first)))"

definition first_of_affiliates :: "jsval \<Rightarrow> jsval option" where
  "first_of_affiliates parsed =
     (case own_property parsed ''affiliates'' of
        Obj ((k, Str s) # _) \<Rightarrow> Some (Str s)
      | Arr (Str s # _) \<Rightarrow> Some (Str s)
      | Str (c # _) \<Rightarrow> Some (Str [c])
      | _ \<Rightarrow> None)"

definition lenient_affiliate :: "engine \<Rightarrow> string option \<Rightarrow> jsval" where
  "lenient_affiliate E md =
     (case md of
        None \<Rightarrow> Unaffiliated
      | Some m \<Rightarrow>
          (case JSON_parse E m of
             None \<Rightarrow> Unaffiliated
           | Some parsed \<Rightarrow>
               if truthy (own_property parsed ''affiliateName'')
               then own_property parsed ''affiliateName''
               else
                 (case first_of_affiliates parsed of
                    None \<Rightarrow> Unaffiliated
                  | Some first \<Rightarrow> first)))"

text \<open>
  One gym, one event: the pair (user id, points) that \<^verbatim>\<open>byDiv\<close> holds for an
  athlete, the array \<^verbatim>\<open>byDiv\<close> holds for one division label, and the entries
  of that array that contribute.
\<close>

definition pair_of :: "string \<Rightarrow> athlete \<Rightarrow> string \<times> int" where
  "pair_of eid a = (userId a, event_points a eid)"

definition division_group :: "athlete list \<Rightarrow> string \<Rightarrow> string \<Rightarrow> (string \<times> int) list" where
  "division_group members eid L = map (pair_of eid) (filter (\<lambda>a. divisionLabel a = L) members)"

definition top_of_division :: "athlete list \<Rightarrow> string \<Rightarrow> string \<Rightarrow> (string \<times> int) list" where
  "top_of_division members eid L =
     take TOP_PER_DIVISION (js_sort (\<lambda>a b. snd b - snd a) (division_group members eid L))"

section \<open>Sample data\<close>

text \<open>
  A concrete engine and concrete query results, on which the theorems are
  instantiated. The sample engine parses exactly the metadata texts of the sample
  registrations; its rounding is the exact round-half-up, which is what the
  double-precision expression gives for the multiplier 100 used here; its
  \<open>localeCompare\<close> is the comparison by character codes.
\<close>

definition quoted :: "string \<Rightarrow> string" where
  "quoted s = CHR 0x22 # s @ [CHR 0x22]"

definition metadata_of_gym :: "string \<Rightarrow> string" where
  "metadata_of_gym g = ''{'' @ quoted ''affiliateName'' @ '':'' @ quoted g @ ''}''"

definition sample_JSON_parse :: "string \<Rightarrow> jsval option" where
  "sample_JSON_parse s =
     map_of
       [(metadata_of_gym ''North'', Obj [(''affiliateName'', Str ''North'')]),
        (metadata_of_gym ''South'', Obj [(''affiliateName'', Str ''South'')])] s"

definition sample_round :: "int \<Rightarrow> int option \<Rightarrow> int" where
  "sample_round p m = (p * (case m of None \<Rightarrow> 100 | Some k \<Rightarrow> k) + 50) div 100"

definition sample_compare :: "string \<Rightarrow> string \<Rightarrow> int" where
  "sample_compare a b = (if a = b then 0 else if lexordp (\<lambda>x y. of_char x < (of_char y :: nat)) a b then -1 else 1)"

definition sample_engine :: engine where
  "sample_engine = \<lparr> JSON_parse = sample_JSON_parse, localeCompare = sample_compare,
     round_scaled = sample_round \<rparr>"

definition reg_of :: "string \<Rightarrow> string \<Rightarrow> string \<Rightarrow> string \<Rightarrow> registration" where
  "reg_of uid first d g =
     \<lparr> regId = ''r_'' @ uid, reg_userId = uid, reg_divisionId = Some d,
       metadata = Some (metadata_of_gym g), firstName = Some first, lastName = None,
       reg_divisionLabel = Some d \<rparr>"

definition score_of :: "string \<Rightarrow> string \<Rightarrow> int option \<Rightarrow> string \<Rightarrow> score" where
  "score_of uid eid v st =
     \<lparr> sc_userId = uid, competitionEventId = Some eid, scoreValue = v, sc_status = st,
       sc_sortKey = None \<rparr>"

definition sample_event :: event where
  "sample_event = \<lparr> ev_id = ''e1'', trackOrder = 1, pointsMultiplier = Some 100,
     workoutId = ''w1'', workoutName = ''Fran'', ev_scheme = ''time'' \<rparr>"

text \<open>
  One event; division A with x and y tied at 10 and w who did not finish, division
  B with z alone; x and y train at North, w and z at South.
\<close>

definition sample_db :: fetched where
  "sample_db =
     \<lparr> q_comp = Some \<lparr> comp_id = ''comp_1'', comp_name = ''Open'' \<rparr>,
       q_track = Some ''t1'',
       q_events = [sample_event],
       q_registrations =
         [reg_of ''x'' ''Xa'' ''A'' ''North'', reg_of ''y'' ''Yo'' ''A'' ''North'',
          reg_of ''w'' ''Wu'' ''A'' ''South'', reg_of ''z'' ''Zed'' ''B'' ''South''],
       q_allScores =
         [score_of ''x'' ''e1'' (Some 10) ''scored'', score_of ''y'' ''e1'' (Some 10) ''scored'',
          score_of ''w'' ''e1'' None ''dnf'', score_of ''z'' ''e1'' (Some 5) ''scored''] \<rparr>"

definition sample_out :: LeaderboardResponse where
  "sample_out =
     \<lparr>competition = \<lparr>comp_id = ''comp_1'', comp_name = ''Open''\<rparr>,
       divisions =
         [\<lparr>dl_id = ''A'', dl_name = ''A'',
            dl_athletes = [\<lparr>la_rank = 1, la_userId = ''x'', la_name = ''Xa'', la_affiliateName = Str ''North'', la_events = [\<lparr>eventId = ''e1'', eventName = ''Fran'', points = 100, rank = 1\<rparr>], la_totalPoints = 100\<rparr>,
          \<lparr>la_rank = 1, la_userId = ''y'', la_name = ''Yo'', la_affiliateName = Str ''North'', la_events = [\<lparr>eventId = ''e1'', eventName = ''Fran'', points = 100, rank = 1\<rparr>], la_totalPoints = 100\<rparr>,
          \<lparr>la_rank = 3, la_userId = ''w'', la_name = ''Wu'', la_affiliateName = Str ''South'', la_events = [\<lparr>eventId = ''e1'', eventName = ''Fran'', points = 95, rank = 2\<rparr>], la_totalPoints = 95\<rparr>]\<rparr>,
          \<lparr>dl_id = ''B'', dl_name = ''B'',
            dl_athletes = [\<lparr>la_rank = 1, la_userId = ''z'', la_name = ''Zed'', la_affiliateName = Str ''South'', la_events = [\<lparr>eventId = ''e1'', eventName = ''Fran'', points = 100, rank = 1\<rparr>], la_totalPoints = 100\<rparr>]\<rparr>],
       gyms =
         [\<lparr>gl_name = Str ''North'', gl_rank = 1, athleteCount = 2, totalScore = 200,
            gl_athletes = [\<lparr>ga_name = ''Xa'', ga_division = ''A'', divisionRank = 1, ga_events = [\<lparr>ge_eventId = ''e1'', ge_eventName = ''Fran'', ge_points = 100, contributing = True\<rparr>], contributingTotal = 100\<rparr>,
          \<lparr>ga_name = ''Yo'', ga_division = ''A'', divisionRank = 1, ga_events = [\<lparr>ge_eventId = ''e1'', ge_eventName = ''Fran'', ge_points = 100, contributing = True\<rparr>], contributingTotal = 100\<rparr>]\<rparr>,
          \<lparr>gl_name = Str ''South'', gl_rank = 2, athleteCount = 2, totalScore = 195,
            gl_athletes = [\<lparr>ga_name = ''Zed'', ga_division = ''B'', divisionRank = 1, ga_events = [\<lparr>ge_eventId = ''e1'', ge_eventName = ''Fran'', ge_points = 100, contributing = True\<rparr>], contributingTotal = 100\<rparr>,
          \<lparr>ga_name = ''Wu'', ga_division = ''A'', divisionRank = 3, ga_events = [\<lparr>ge_eventId = ''e1'', ge_eventName = ''Fran'', ge_points = 95, contributing = True\<rparr>], contributingTotal = 95\<rparr>]\<rparr>]\<rparr>"

text \<open>The entries of the counterexample to rank assignment by comparison key.\<close>

definition unscored_entry :: ScoreEntry where
  "unscored_entry = \<lparr> se_userId = ''u1'', se_value = None, se_status = ''scored'', se_sortKey = None \<rparr>"

definition seven_entry :: ScoreEntry where
  "seven_entry = \<lparr> se_userId = ''u2'', se_value = Some 7, se_status = ''scored'', se_sortKey = None \<rparr>"

text \<open>One athlete with two scored rows for the only event.\<close>

definition duplicate_db :: fetched where
  "duplicate_db =
     \<lparr> q_comp = Some \<lparr> comp_id = ''comp_1'', comp_name = ''Open'' \<rparr>,
       q_track = Some ''t1'',
       q_events = [sample_event],
       q_registrations = [reg_of ''x'' ''Xa'' ''A'' ''North''],
       q_allScores =
         [score_of ''x'' ''e1'' (Some 10) ''scored'', score_of ''x'' ''e1'' (Some 12) ''scored''] \<rparr>"

definition duplicate_out :: LeaderboardResponse where
  "duplicate_out =
     \<lparr>competition = \<lparr>comp_id = ''comp_1'', comp_name = ''Open''\<rparr>,
       divisions =
         [\<lparr>dl_id = ''A'', dl_name = ''A'',
            dl_athletes = [\<lparr>la_rank = 1, la_userId = ''x'', la_name = ''Xa'', la_affiliateName = Str ''North'', la_events = [\<lparr>eventId = ''e1'', eventName = ''Fran'', points = 100, rank = 1\<rparr>, \<lparr>eventId = ''e1'', eventName = ''Fran'', points = 95, rank = 2\<rparr>], la_totalPoints = 195\<rparr>]\<rparr>],
       gyms =
         [\<lparr>gl_name = Str ''North'', gl_rank = 1, athleteCount = 1, totalScore = 100,
            gl_athletes = [\<lparr>ga_name = ''Xa'', ga_division = ''A'', divisionRank = 1, ga_events = [\<lparr>ge_eventId = ''e1'', ge_eventName = ''Fran'', ge_points = 100, contributing = True\<rparr>], contributingTotal = 100\<rparr>]\<rparr>]\<rparr>"


text \<open>
  The metadata text \<^verbatim>\<open>{"affiliates":"abc"}\<close> and an engine that parses it, and
  the text \<^verbatim>\<open>null\<close>.
\<close>

definition affiliates_text :: string where
  "affiliates_text = ''{'' @ quoted ''affiliates'' @ '':'' @ quoted ''abc'' @ ''}''"

definition text_engine :: engine where
  "text_engine = sample_engine\<lparr> JSON_parse :=
     map_of [(affiliates_text, Obj [(''affiliates'', Str ''abc'')]),
             (''null'', Null)] \<rparr>"

text \<open>User x registered twice, the second time in division B for South.\<close>

definition repeat_db :: fetched where
  "repeat_db = sample_db\<lparr> q_registrations :=
     [reg_of ''x'' ''Xa'' ''A'' ''North'', reg_of ''y'' ''Yo'' ''A'' ''North'',
      reg_of ''x'' ''Xavier'' ''B'' ''South''] \<rparr>"

definition repeat_out :: LeaderboardResponse where
  "repeat_out =
     \<lparr>competition = \<lparr>comp_id = ''comp_1'', comp_name = ''Open''\<rparr>,
       divisions =
         [\<lparr>dl_id = ''B'', dl_name = ''B'',
            dl_athletes = [\<lparr>la_rank = 1, la_userId = ''x'', la_name = ''Xavier'', la_affiliateName = Str ''South'', la_events = [\<lparr>eventId = ''e1'', eventName = ''Fran'', points = 100, rank = 1\<rparr>], la_totalPoints = 100\<rparr>]\<rparr>,
          \<lparr>dl_id = ''A'', dl_name = ''A'',
            dl_athletes = [\<lparr>la_rank = 1, la_userId = ''y'', la_name = ''Yo'', la_affiliateName = Str ''North'', la_events = [\<lparr>eventId = ''e1'', eventName = ''Fran'', points = 100, rank = 1\<rparr>], la_totalPoints = 100\<rparr>]\<rparr>],
       gyms =
         [\<lparr>gl_name = Str ''South'', gl_rank = 1, athleteCount = 1, totalScore = 100,
            gl_athletes = [\<lparr>ga_name = ''Xavier'', ga_division = ''B'', divisionRank = 1, ga_events = [\<lparr>ge_eventId = ''e1'', ge_eventName = ''Fran'', ge_points = 100, contributing = True\<rparr>], contributingTotal = 100\<rparr>]\<rparr>,
          \<lparr>gl_name = Str ''North'', gl_rank = 1, athleteCount = 1, totalScore = 100,
            gl_athletes = [\<lparr>ga_name = ''Yo'', ga_division = ''A'', divisionRank = 1, ga_events = [\<lparr>ge_eventId = ''e1'', ge_eventName = ''Fran'', ge_points = 100, contributing = True\<rparr>], contributingTotal = 100\<rparr>]\<rparr>]\<rparr>"

text \<open>
  Seven athletes of one gym in one division, with seven different scores for the
  only event.
\<close>

definition seven_db :: fetched where
  "seven_db = sample_db\<lparr>
     q_registrations :=
       [reg_of ''a1'' ''A1'' ''A'' ''North'', reg_of ''a2'' ''A2'' ''A'' ''North'',
        reg_of ''a3'' ''A3'' ''A'' ''North'', reg_of ''a4'' ''A4'' ''A'' ''North'',
        reg_of ''a5'' ''A5'' ''A'' ''North'', reg_of ''a6'' ''A6'' ''A'' ''North'',
        reg_of ''a7'' ''A7'' ''A'' ''North''],
     q_allScores :=
       [score_of ''a1'' ''e1'' (Some 7) ''scored'', score_of ''a2'' ''e1'' (Some 6) ''scored'',
        score_of ''a3'' ''e1'' (Some 5) ''scored'', score_of ''a4'' ''e1'' (Some 4) ''scored'',
        score_of ''a5'' ''e1'' (Some 3) ''scored'', score_of ''a6'' ''e1'' (Some 2) ''scored'',
        score_of ''a7'' ''e1'' (Some 1) ''scored''] \<rparr>"

definition seven_out :: LeaderboardResponse where
  "seven_out =
     \<lparr>competition = \<lparr>comp_id = ''comp_1'', comp_name = ''Open''\<rparr>,
       divisions =
         [\<lparr>dl_id = ''A'', dl_name = ''A'',
            dl_athletes = [\<lparr>la_rank = 1, la_userId = ''a7'', la_name = ''A7'', la_affiliateName = Str ''North'', la_events = [\<lparr>eventId = ''e1'', eventName = ''Fran'', points = 100, rank = 1\<rparr>], la_totalPoints = 100\<rparr>,
          \<lparr>la_rank = 2, la_userId = ''a6'', la_name = ''A6'', la_affiliateName = Str ''North'', la_events = [\<lparr>eventId = ''e1'', eventName = ''Fran'', points = 95, rank = 2\<rparr>], la_totalPoints = 95\<rparr>,
          \<lparr>la_rank = 3, la_userId = ''a5'', la_name = ''A5'', la_affiliateName = Str ''North'', la_events = [\<lparr>eventId = ''e1'', eventName = ''Fran'', points = 90, rank = 3\<rparr>], la_totalPoints = 90\<rparr>,
          \<lparr>la_rank = 4, la_userId = ''a4'', la_name = ''A4'', la_affiliateName = Str ''North'', la_events = [\<lparr>eventId = ''e1'', eventName = ''Fran'', points = 85, rank = 4\<rparr>], la_totalPoints = 85\<rparr>,
          \<lparr>la_rank = 5, la_userId = ''a3'', la_name = ''A3'', la_affiliateName = Str ''North'', la_events = [\<lparr>eventId = ''e1'', eventName = ''Fran'', points = 80, rank = 5\<rparr>], la_totalPoints = 80\<rparr>,
          \<lparr>la_rank = 6, la_userId = ''a2'', la_name = ''A2'', la_affiliateName = Str ''North'', la_events = [\<lparr>eventId = ''e1'', eventName = ''Fran'', points = 75, rank = 6\<rparr>], la_totalPoints = 75\<rparr>,
          \<lparr>la_rank = 7, la_userId = ''a1'', la_name = ''A1'', la_affiliateName = Str ''North'', la_events = [\<lparr>eventId = ''e1'', eventName = ''Fran'', points = 70, rank = 7\<rparr>], la_totalPoints = 70\<rparr>]\<rparr>],
       gyms =
         [\<lparr>gl_name = Str ''North'', gl_rank = 1, athleteCount = 7, totalScore = 525,
            gl_athletes = [\<lparr>ga_name = ''A7'', ga_division = ''A'', divisionRank = 1, ga_events = [\<lparr>ge_eventId = ''e1'', ge_eventName = ''Fran'', ge_points = 100, contributing = True\<rparr>], contributingTotal = 100\<rparr>,
          \<lparr>ga_name = ''A6'', ga_division = ''A'', divisionRank = 2, ga_events = [\<lparr>ge_eventId = ''e1'', ge_eventName = ''Fran'', ge_points = 95, contributing = True\<rparr>], contributingTotal = 95\<rparr>,
          \<lparr>ga_name = ''A5'', ga_division = ''A'', divisionRank = 3, ga_events = [\<lparr>ge_eventId = ''e1'', ge_eventName = ''Fran'', ge_points = 90, contributing = True\<rparr>], contributingTotal = 90\<rparr>,
          \<lparr>ga_name = ''A4'', ga_division = ''A'', divisionRank = 4, ga_events = [\<lparr>ge_eventId = ''e1'', ge_eventName = ''Fran'', ge_points = 85, contributing = True\<rparr>], contributingTotal = 85\<rparr>,
          \<lparr>ga_name = ''A3'', ga_division = ''A'', divisionRank = 5, ga_events = [\<lparr>ge_eventId = ''e1'', ge_eventName = ''Fran'', ge_points = 80, contributing = True\<rparr>], contributingTotal = 80\<rparr>,
          \<lparr>ga_name = ''A2'', ga_division = ''A'', divisionRank = 6, ga_events = [\<lparr>ge_eventId = ''e1'', ge_eventName = ''Fran'', ge_points = 75, contributing = True\<rparr>], contributingTotal = 75\<rparr>,
          \<lparr>ga_name = ''A1'', ga_division = ''A'', divisionRank = 7, ga_events = [\<lparr>ge_eventId = ''e1'', ge_eventName = ''Fran'', ge_points = 70, contributing = False\<rparr>], contributingTotal = 0\<rparr>]\<rparr>]\<rparr>"

text \<open>The sample data with a second scored row of z for the event.\<close>

definition mixed_db :: fetched where
  "mixed_db = sample_db\<lparr> q_allScores :=
     [score_of ''x'' ''e1'' (Some 10) ''scored'', score_of ''y'' ''e1'' (Some 10) ''scored'',
      score_of ''w'' ''e1'' None ''dnf'', score_of ''z'' ''e1'' (Some 5) ''scored'',
      score_of ''z'' ''e1'' (Some 6) ''scored''] \<rparr>"

definition mixed_out :: LeaderboardResponse where
  "mixed_out =
     \<lparr>competition = \<lparr>comp_id = ''comp_1'', comp_name = ''Open''\<rparr>,
       divisions =
         [\<lparr>dl_id = ''A'', dl_name = ''A'',
            dl_athletes = [\<lparr>la_rank = 1, la_userId = ''x'', la_name = ''Xa'', la_affiliateName = Str ''North'', la_events = [\<lparr>eventId = ''e1'', eventName = ''Fran'', points = 100, rank = 1\<rparr>], la_totalPoints = 100\<rparr>,
          \<lparr>la_rank = 1, la_userId = ''y'', la_name = ''Yo'', la_affiliateName = Str ''North'', la_events = [\<lparr>eventId = ''e1'', eventName = ''Fran'', points = 100, rank = 1\<rparr>], la_totalPoints = 100\<rparr>,
          \<lparr>la_rank = 3, la_userId = ''w'', la_name = ''Wu'', la_affiliateName = Str ''South'', la_events = [\<lparr>eventId = ''e1'', eventName = ''Fran'', points = 95, rank = 2\<rparr>], la_totalPoints = 95\<rparr>]\<rparr>,
          \<lparr>dl_id = ''B'', dl_name = ''B'',
            dl_athletes = [\<lparr>la_rank = 1, la_userId = ''z'', la_name = ''Zed'', la_affiliateName = Str ''South'', la_events = [\<lparr>eventId = ''e1'', eventName = ''Fran'', points = 100, rank = 1\<rparr>,
          \<lparr>eventId = ''e1'', eventName = ''Fran'', points = 95, rank = 2\<rparr>], la_totalPoints = 195\<rparr>]\<rparr>],
       gyms =
         [\<lparr>gl_name = Str ''North'', gl_rank = 1, athleteCount = 2, totalScore = 200,
            gl_athletes = [\<lparr>ga_name = ''Xa'', ga_division = ''A'', divisionRank = 1, ga_events = [\<lparr>ge_eventId = ''e1'', ge_eventName = ''Fran'', ge_points = 100, contributing = True\<rparr>], contributingTotal = 100\<rparr>,
          \<lparr>ga_name = ''Yo'', ga_division = ''A'', divisionRank = 1, ga_events = [\<lparr>ge_eventId = ''e1'', ge_eventName = ''Fran'', ge_points = 100, contributing = True\<rparr>], contributingTotal = 100\<rparr>]\<rparr>,
          \<lparr>gl_name = Str ''South'', gl_rank = 2, athleteCount = 2, totalScore = 195,
            gl_athletes = [\<lparr>ga_name = ''Zed'', ga_division = ''B'', divisionRank = 1, ga_events = [\<lparr>ge_eventId = ''e1'', ge_eventName = ''Fran'', ge_points = 100, contributing = True\<rparr>], contributingTotal = 100\<rparr>,
          \<lparr>ga_name = ''Wu'', ga_division = ''A'', divisionRank = 3, ga_events = [\<lparr>ge_eventId = ''e1'', ge_eventName = ''Fran'', ge_points = 95, contributing = True\<rparr>], contributingTotal = 95\<rparr>]\<rparr>]\<rparr>"

text \<open>
  Six athletes of North in the division \<^verbatim>\<open>lvl_1\<close>, whose label is Open, and one
  athlete of North without division, whose division is the default \<^verbatim>\<open>open\<close>
  with the default label Open.
\<close>

definition reg_in :: "string \<Rightarrow> string \<Rightarrow> string option \<Rightarrow> string option \<Rightarrow> string \<Rightarrow> registration" where
  "reg_in uid first d l g =
     \<lparr> regId = ''r_'' @ uid, reg_userId = uid, reg_divisionId = d,
       metadata = Some (metadata_of_gym g), firstName = Some first, lastName = None,
       reg_divisionLabel = l \<rparr>"

definition open_db :: fetched where
  "open_db = sample_db\<lparr>
     q_registrations :=
       [reg_in ''p1'' ''P1'' (Some ''lvl_1'') (Some ''Open'') ''North'',
        reg_in ''p2'' ''P2'' (Some ''lvl_1'') (Some ''Open'') ''North'',
        reg_in ''p3'' ''P3'' (Some ''lvl_1'') (Some ''Open'') ''North'',
        reg_in ''p4'' ''P4'' (Some ''lvl_1'') (Some ''Open'') ''North'',
        reg_in ''p5'' ''P5'' (Some ''lvl_1'') (Some ''Open'') ''North'',
        reg_in ''p6'' ''P6'' (Some ''lvl_1'') (Some ''Open'') ''North'',
        reg_in ''q'' ''Q'' None None ''North''],
     q_allScores :=
       [score_of ''p1'' ''e1'' (Some 1) ''scored'', score_of ''p2'' ''e1'' (Some 2) ''scored'',
        score_of ''p3'' ''e1'' (Some 3) ''scored'', score_of ''p4'' ''e1'' (Some 4) ''scored'',
        score_of ''p5'' ''e1'' (Some 5) ''scored'', score_of ''p6'' ''e1'' (Some 6) ''scored'',
        score_of ''q'' ''e1'' (Some 9) ''scored''] \<rparr>"

definition open_out :: LeaderboardResponse where
  "open_out =
     \<lparr>competition = \<lparr>comp_id = ''comp_1'', comp_name = ''Open''\<rparr>,
       divisions =
         [\<lparr>dl_id = ''lvl_1'', dl_name = ''Open'',
            dl_athletes = [\<lparr>la_rank = 1, la_userId = ''p1'', la_name = ''P1'', la_affiliateName = Str ''North'', la_events = [\<lparr>eventId = ''e1'', eventName = ''Fran'', points = 100, rank = 1\<rparr>], la_totalPoints = 100\<rparr>,
          \<lparr>la_rank = 2, la_userId = ''p2'', la_name = ''P2'', la_affiliateName = Str ''North'', la_events = [\<lparr>eventId = ''e1'', eventName = ''Fran'', points = 95, rank = 2\<rparr>], la_totalPoints = 95\<rparr>,
          \<lparr>la_rank = 3, la_userId = ''p3'', la_name = ''P3'', la_affiliateName = Str ''North'', la_events = [\<lparr>eventId = ''e1'', eventName = ''Fran'', points = 90, rank = 3\<rparr>], la_totalPoints = 90\<rparr>,
          \<lparr>la_rank = 4, la_userId = ''p4'', la_name = ''P4'', la_affiliateName = Str ''North'', la_events = [\<lparr>eventId = ''e1'', eventName = ''Fran'', points = 85, rank = 4\<rparr>], la_totalPoints = 85\<rparr>,
          \<lparr>la_rank = 5, la_userId = ''p5'', la_name = ''P5'', la_affiliateName = Str ''North'', la_events = [\<lparr>eventId = ''e1'', eventName = ''Fran'', points = 80, rank = 5\<rparr>], la_totalPoints = 80\<rparr>,
          \<lparr>la_rank = 6, la_userId = ''p6'', la_name = ''P6'', la_affiliateName = Str ''North'', la_events = [\<lparr>eventId = ''e1'', eventName = ''Fran'', points = 75, rank = 6\<rparr>], la_totalPoints = 75\<rparr>]\<rparr>,
          \<lparr>dl_id = ''open'', dl_name = ''Open'',
            dl_athletes = [\<lparr>la_rank = 1, la_userId = ''q'', la_name = ''Q'', la_affiliateName = Str ''North'', la_events = [\<lparr>eventId = ''e1'', eventName = ''Fran'', points = 100, rank = 1\<rparr>], la_totalPoints = 100\<rparr>]\<rparr>],
       gyms =
         [\<lparr>gl_name = Str ''North'', gl_rank = 1, athleteCount = 7, totalScore = 550,
            gl_athletes = [\<lparr>ga_name = ''P1'', ga_division = ''Open'', divisionRank = 1, ga_events = [\<lparr>ge_eventId = ''e1'', ge_eventName = ''Fran'', ge_points = 100, contributing = True\<rparr>], contributingTotal = 100\<rparr>,
          \<lparr>ga_name = ''Q'', ga_division = ''Open'', divisionRank = 1, ga_events = [\<lparr>ge_eventId = ''e1'', ge_eventName = ''Fran'', ge_points = 100, contributing = True\<rparr>], contributingTotal = 100\<rparr>,
          \<lparr>ga_name = ''P2'', ga_division = ''Open'', divisionRank = 2, ga_events = [\<lparr>ge_eventId = ''e1'', ge_eventName = ''Fran'', ge_points = 95, contributing = True\<rparr>], contributingTotal = 95\<rparr>,
          \<lparr>ga_name = ''P3'', ga_division = ''Open'', divisionRank = 3, ga_events = [\<lparr>ge_eventId = ''e1'', ge_eventName = ''Fran'', ge_points = 90, contributing = True\<rparr>], contributingTotal = 90\<rparr>,
          \<lparr>ga_name = ''P4'', ga_division = ''Open'', divisionRank = 4, ga_events = [\<lparr>ge_eventId = ''e1'', ge_eventName = ''Fran'', ge_points = 85, contributing = True\<rparr>], contributingTotal = 85\<rparr>,
          \<lparr>ga_name = ''P5'', ga_division = ''Open'', divisionRank = 5, ga_events = [\<lparr>ge_eventId = ''e1'', ge_eventName = ''Fran'', ge_points = 80, contributing = True\<rparr>], contributingTotal = 80\<rparr>,
          \<lparr>ga_name = ''P6'', ga_division = ''Open'', divisionRank = 6, ga_events = [\<lparr>ge_eventId = ''e1'', ge_eventName = ''Fran'', ge_points = 75, contributing = False\<rparr>], contributingTotal = 0\<rparr>]\<rparr>]\<rparr>"

section \<open>Lemmas\<close>

lemma insert_by_desc: "insert_by (\<lambda>a b. f b - f a) x ys = insort_key (\<lambda>x. - f x) x ys"
  by (induction ys) auto

lemma js_sort_desc: "js_sort (\<lambda>a b. f b - f a) xs = sort_key (\<lambda>x. - (f x :: int)) xs"
  by (induction xs) (simp_all add: js_sort_def insert_by_desc)

lemma mset_insert_by: "mset (insert_by cmp x ys) = add_mset x (mset ys)"
  by (induction ys) auto

lemma mset_js_sort: "mset (js_sort cmp xs) = mset xs"
  by (induction xs) (simp_all add: js_sort_def mset_insert_by)

lemma set_js_sort: "set (js_sort cmp xs) = set xs"
  by (metis mset_js_sort set_mset_mset)

lemma length_js_sort: "length (js_sort cmp xs) = length xs"
  by (metis mset_js_sort size_mset)

lemma assignRanks_loop_fst: "map fst (assignRanks_loop i r ps pv xs) = xs"
  by (induction xs arbitrary: i r ps pv) (simp_all add: Let_def)



lemma assignRanks_fst: "map fst (assignRanks xs) = xs"
  unfolding assignRanks_def by (rule assignRanks_loop_fst)




lemma first_occ_snoc:
  "first_occ (ks @ [k]) = (if k \<in> set ks then first_occ ks else first_occ ks @ [k])"
  by (simp add: first_occ_def)

lemma set_first_occ: "set (first_occ ks) = set ks"
  by (simp add: first_occ_def)

lemma distinct_first_occ: "distinct (first_occ ks)"
  by (simp add: first_occ_def)

lemma group_add_new:
  "k \<notin> fst ` set g \<Longrightarrow> group_add k x g = g @ [(k, [x])]"
  by (induction g) auto

lemma group_add_old:
  "k \<in> fst ` set g \<Longrightarrow> distinct (map fst g) \<Longrightarrow>
   group_add k x g = map (\<lambda>(k', xs). (k', if k' = k then xs @ [x] else xs)) g"
proof (induction g)
  case Nil
  then show ?case by simp
next
  case (Cons p g)
  obtain k' xs where p: "p = (k', xs)" by (cases p)
  show ?case
  proof (cases "k = k'")
    case True
    then have "k \<notin> fst ` set g" using Cons.prems(2) p by auto
    then have "map (\<lambda>(k', xs). (k', if k' = k then xs @ [x] else xs)) g = g"
      by (induction g) auto
    then show ?thesis using True p by simp
  next
    case False
    then have "k \<in> fst ` set g" using Cons.prems(1) p by auto
    then show ?thesis using Cons.IH Cons.prems(2) False p by simp
  qed
qed

lemma group_pairs_snoc:
  "group_pairs (kvs @ [(k, x)]) = group_add k x (group_pairs kvs)"
  by (simp add: group_pairs_def)

lemma group_pairs_eq:
  "group_pairs kvs =
     map (\<lambda>k. (k, map snd (filter (\<lambda>kv. fst kv = k) kvs))) (first_occ (map fst kvs))"
proof (induction kvs rule: rev_induct)
  case Nil
  then show ?case by (simp add: group_pairs_def first_occ_def)
next
  case (snoc kv kvs)
  obtain k x where kv: "kv = (k, x)" by (cases kv)
  let ?F = "\<lambda>k. map snd (filter (\<lambda>kv. fst kv = k) kvs)"
  let ?g = "map (\<lambda>k. (k, ?F k)) (first_occ (map fst kvs))"
  have keys: "map fst ?g = first_occ (map fst kvs)" by (simp add: comp_def)
  show ?case
  proof (cases "k \<in> set (map fst kvs)")
    case True
    then have "k \<in> fst ` set ?g" using keys by (metis set_first_occ set_map)
    moreover have "distinct (map fst ?g)" using keys distinct_first_occ by metis
    ultimately have "group_add k x ?g = map (\<lambda>(k', xs). (k', if k' = k then xs @ [x] else xs)) ?g"
      by (rule group_add_old)
    then show ?thesis
      using True snoc.IH kv
      by (simp add: group_pairs_snoc first_occ_snoc comp_def cong: map_cong)
  next
    case False
    then have "k \<notin> fst ` set ?g" using keys by (metis set_first_occ set_map)
    then have "group_add k x ?g = ?g @ [(k, [x])]" by (rule group_add_new)
    moreover have "filter (\<lambda>kv. fst kv = k) kvs = []"
      using False by (auto simp: filter_empty_conv)
    ultimately show ?thesis
      using False snoc.IH kv
      by (auto simp: group_pairs_snoc first_occ_snoc comp_def set_first_occ)
  qed
qed

lemma group_pairs_keys: "map fst (group_pairs kvs) = first_occ (map fst kvs)"
  by (simp add: group_pairs_eq comp_def)

lemma distinct_group_keys: "distinct (map fst (group_pairs kvs))"
  by (simp add: group_pairs_keys distinct_first_occ)

lemma group_pairs_member:
  "(k, vs) \<in> set (group_pairs kvs) \<longleftrightarrow>
     k \<in> fst ` set kvs \<and> vs = map snd (filter (\<lambda>kv. fst kv = k) kvs)"
  by (auto simp: group_pairs_eq set_first_occ)

lemma mset_group_add:
  "mset (concat (map snd (group_add k x g))) = add_mset x (mset (concat (map snd g)))"
  by (induction g) auto

lemma mset_group_pairs: "mset (concat (map snd (group_pairs kvs))) = mset (map snd kvs)"
proof (induction kvs rule: rev_induct)
  case Nil
  then show ?case by (simp add: group_pairs_def)
next
  case (snoc kv kvs)
  then show ?case by (cases kv) (simp add: group_pairs_snoc mset_group_add)
qed

lemma parseAffiliateName_Inr: "\<exists>v. parseAffiliateName E md = Inr v"
  by (simp add: parseAffiliateName_def split: option.split sum.split)

lemma parseAffiliateName_parsed:
  "parseAffiliateName E (metadata reg) = Inr (parsed_affiliate E reg)"
  using parseAffiliateName_Inr [of E "metadata reg"] by (auto simp: parsed_affiliate_def)

lemma build_athleteMap_eq:
  "build_athleteMap E regs m =
     Inr (foldl (\<lambda>m reg. map_set (reg_userId reg) (athlete_of_registration E reg) m) m regs)"
  by (induction regs arbitrary: m)
     (simp_all add: parseAffiliateName_parsed athlete_of_registration_def)

lemma map_of_map_set: "map_of (map_set k v m) = (map_of m)(k \<mapsto> v)"
  by (induction m) auto

lemma keys_map_set_old: "k \<in> fst ` set m \<Longrightarrow> map fst (map_set k v m) = map fst m"
  by (induction m) (force split: if_splits)+

lemma keys_map_set_new: "k \<notin> fst ` set m \<Longrightarrow> map fst (map_set k v m) = map fst m @ [k]"
  by (induction m) (auto split: if_splits)

lemma keys_map_set:
  "map fst (map_set k v m) = (if k \<in> set (map fst m) then map fst m else map fst m @ [k])"
  using keys_map_set_old [of k m v] keys_map_set_new [of k m v] by simp

lemma distinct_map_set: "distinct (map fst m) \<Longrightarrow> distinct (map fst (map_set k v m))"
  by (simp add: keys_map_set)

lemma set_map_set: "set (map_set k v m) \<subseteq> insert (k, v) (set m)"
  by (induction m) (auto split: if_splits)

lemma built_snoc:
  "built E (regs @ [reg]) = map_set (reg_userId reg) (athlete_of_registration E reg) (built E regs)"
  by (simp add: built_def)

lemma distinct_built: "distinct (map fst (built E regs))"
  by (induction regs rule: rev_induct) (simp_all add: built_def distinct_map_set)

lemma keys_built: "set (map fst (built E regs)) = reg_userId ` set regs"
  by (induction regs rule: rev_induct) (auto simp: built_snoc keys_map_set built_def)

lemma map_of_built:
  "map_of (built E regs) uid =
     (case filter (\<lambda>r. reg_userId r = uid) regs of
        [] \<Rightarrow> None
      | rs \<Rightarrow> Some (athlete_of_registration E (last rs)))"
proof (induction regs rule: rev_induct)
  case Nil
  then show ?case by (simp add: built_def)
next
  case (snoc reg regs)
  then show ?case
    by (auto simp: built_snoc map_of_map_set split: list.splits)
qed

lemma built_values:
  "(k, a) \<in> set (built E regs) \<Longrightarrow>
     \<exists>reg \<in> set regs. reg_userId reg = k \<and> a = athlete_of_registration E reg"
proof (induction regs arbitrary: k a rule: rev_induct)
  case Nil
  then show ?case by (simp add: built_def)
next
  case (snoc reg regs)
  from snoc.prems set_map_set
  have "(k, a) = (reg_userId reg, athlete_of_registration E reg) \<or> (k, a) \<in> set (built E regs)"
    unfolding built_snoc by fastforce
  then show ?case using snoc.IH by auto
qed

lemma received_Nil [simp]: "received k [] = []"
  by (simp add: received_def)

lemma received_Cons:
  "received k (ur # ps) = (if fst ur = k then snd ur # received k ps else received k ps)"
  by (simp add: received_def)

lemma foldl_add_result:
  "foldl (\<lambda>a ur. if k = fst ur then add_result (snd ur) a else a) a ps =
     a\<lparr> events := events a @ received k ps,
       totalPoints := totalPoints a + sum_list (map points (received k ps)) \<rparr>"
  by (induction ps arbitrary: a) (auto simp: received_Cons add_result_def)

lemma foldl_push_result:
  "foldl push_result m ps =
     map (\<lambda>(k, a). (k, foldl (\<lambda>a ur. if k = fst ur then add_result (snd ur) a else a) a ps)) m"
proof (induction ps arbitrary: m)
  case Nil
  then show ?case by (simp add: case_prod_unfold)
next
  case (Cons ur ps)
  have "foldl push_result m (ur # ps) = foldl push_result (push_result m ur) ps" by simp
  also have "\<dots> = map (\<lambda>(k, a). (k, foldl (\<lambda>a ur. if k = fst ur then add_result (snd ur) a else a) a ps))
      (push_result m ur)" by (rule Cons.IH)
  also have "\<dots> = map (\<lambda>(k, a). (k, foldl (\<lambda>a ur. if k = fst ur then add_result (snd ur) a else a) a (ur # ps))) m"
    by (simp add: push_result_def case_prod_unfold comp_def)
  finally show ?case .
qed

lemma process_event_eq:
  "process_event E allScores m ev =
     map (\<lambda>(k, a). (k, after_event ev (received k (event_pushes E allScores m ev)) a)) m"
  by (simp add: process_event_def fill_missing_def foldl_push_result foldl_add_result
      after_event_def case_prod_unfold comp_def)

lemma compute_events_snoc:
  "compute_events E (evs @ [ev]) allScores m =
     process_event E allScores (compute_events E evs allScores m) ev"
  by (simp add: compute_events_def)

lemma compute_events_Nil: "compute_events E [] allScores m = m"
  by (simp add: compute_events_def)

lemma static_after_event: "static (after_event ev rs a) = static a"
  by (simp add: static_def after_event_def)

lemma static_process_event:
  "map (\<lambda>(k, a). (k, static a)) (process_event E allScores m ev) = map (\<lambda>(k, a). (k, static a)) m"
  by (simp add: process_event_eq case_prod_unfold comp_def static_after_event)

lemma static_compute_events:
  "map (\<lambda>(k, a). (k, static a)) (compute_events E evs allScores m) = map (\<lambda>(k, a). (k, static a)) m"
  by (induction evs rule: rev_induct)
     (simp_all add: compute_events_Nil compute_events_snoc static_process_event)

lemma keys_compute_events: "map fst (compute_events E evs allScores m) = map fst m"
proof -
  have "map fst (map (\<lambda>(k, a). (k, static a)) (compute_events E evs allScores m)) =
        map fst (map (\<lambda>(k, a). (k, static a)) m)"
    by (simp only: static_compute_events)
  then show ?thesis by (simp add: case_prod_unfold comp_def)
qed

lemma totals_after_event:
  "totalPoints a = sum_list (map points (events a)) \<Longrightarrow>
   totalPoints (after_event ev rs a) = sum_list (map points (events (after_event ev rs a)))"
  by (simp add: after_event_def placeholder_def)

lemma totals_ok_process_event: "totals_ok m \<Longrightarrow> totals_ok (process_event E allScores m ev)"
  by (auto simp: totals_ok_def process_event_eq totals_after_event)

lemma totals_ok_compute_events: "totals_ok m \<Longrightarrow> totals_ok (compute_events E evs allScores m)"
  by (induction evs rule: rev_induct)
     (simp_all add: compute_events_Nil compute_events_snoc totals_ok_process_event)

lemma totals_ok_built: "totals_ok (built E regs)"
  by (auto simp: totals_ok_def athlete_of_registration_def make_athlete_def dest!: built_values)

lemma mset_active_dnf:
  "mset (filter is_active ds) + mset (filter (\<lambda>s. se_status s = ''dnf'') ds) =
   mset (filter (\<lambda>s. counted_status (se_status s)) ds)"
  by (induction ds) (auto simp: is_active_def counted_status_def)

lemma division_results_users:
  "mset (map fst (division_results E ev ds)) =
   mset (map se_userId (filter (\<lambda>s. counted_status (se_status s)) ds))"
proof -
  let ?ranked = "assignRanks (js_sort (compare_active E) (filter is_active ds))"
  have "map fst (map (\<lambda>(entry, r). (se_userId entry, mk_result E ev r)) ?ranked) =
        map se_userId (map fst ?ranked)"
    by (simp add: case_prod_unfold comp_def)
  then have "mset (map fst (map (\<lambda>(entry, r). (se_userId entry, mk_result E ev r)) ?ranked)) =
        image_mset se_userId (mset (filter is_active ds))"
    by (simp add: assignRanks_fst mset_js_sort del: map_map mset_filter)
  moreover have "mset (map se_userId (filter (\<lambda>s. counted_status (se_status s)) ds)) =
      image_mset se_userId (mset (filter is_active ds)) +
      image_mset se_userId (mset (filter (\<lambda>s. se_status s = ''dnf'') ds))"
    using mset_active_dnf [of ds, symmetric] by (simp del: mset_filter)
  ultimately show ?thesis
    by (simp add: division_results_def Let_def comp_def del: mset_filter mset_map)
       (simp add: comp_def)
qed

lemma division_results_eventId:
  "ur \<in> set (division_results E ev ds) \<Longrightarrow> eventId (snd ur) = ev_id ev"
  by (auto simp: division_results_def Let_def mk_result_def)

lemma concat_division_results_users:
  "mset (map fst (concat (map (\<lambda>(d, ds). division_results E ev ds) G))) =
   mset (map se_userId (filter (\<lambda>s. counted_status (se_status s)) (concat (map snd G))))"
  by (induction G) (auto simp: division_results_users simp del: mset_filter mset_map)

lemma event_pushes_users:
  "mset (map fst (event_pushes E allScores m ev)) =
   mset (map se_userId (filter (\<lambda>s. counted_status (se_status s)) (map snd (event_entries ev allScores m))))"
proof -
  have "mset (map se_userId (filter (\<lambda>s. counted_status (se_status s))
            (concat (map snd (group_pairs (event_entries ev allScores m)))))) =
        image_mset se_userId (filter_mset (\<lambda>s. counted_status (se_status s))
            (mset (concat (map snd (group_pairs (event_entries ev allScores m))))))"
    by simp
  also have "\<dots> = image_mset se_userId (filter_mset (\<lambda>s. counted_status (se_status s))
            (mset (map snd (event_entries ev allScores m))))"
    by (simp only: mset_group_pairs)
  finally show ?thesis
    unfolding event_pushes_def concat_division_results_users by simp
qed

lemma event_pushes_eventId:
  "ur \<in> set (event_pushes E allScores m ev) \<Longrightarrow> eventId (snd ur) = ev_id ev"
  by (auto simp: event_pushes_def dest: division_results_eventId)

lemma event_entries_eq:
  "map snd (event_entries ev allScores m) =
     map to_entry (filter (\<lambda>s. competitionEventId s = Some (ev_id ev) \<and> map_of m (sc_userId s) \<noteq> None)
       allScores)"
  by (induction allScores) (auto simp: event_entries_def to_entry_def split: option.splits)

lemma list_ex_eventId: "list_ex (\<lambda>e. eventId e = i) rs \<longleftrightarrow> i \<in> set (map eventId rs)"
  by (auto simp: list_ex_iff)

lemma after_event_ids:
  assumes "map eventId (events a) = map ev_id evs"
    and "ev_id ev \<notin> set (map ev_id evs)"
    and "rs = [] \<or> (\<exists>r. rs = [r] \<and> eventId r = ev_id ev)"
  shows "map eventId (events (after_event ev rs a)) = map ev_id (evs @ [ev])"
proof (cases "rs = []")
  case True
  then have "\<not> list_ex (\<lambda>e. eventId e = ev_id ev) (events a @ rs)"
    using assms(1,2) by (simp add: list_ex_eventId)
  then show ?thesis
    using True assms(1) by (simp add: after_event_def placeholder_def)
next
  case False
  then obtain r where r: "rs = [r]" "eventId r = ev_id ev" using assms(3) by blast
  then have "list_ex (\<lambda>e. eventId e = ev_id ev) (events a @ rs)"
    by (simp add: list_ex_eventId)
  then show ?thesis
    using r assms(1) by (simp add: after_event_def)
qed

lemma length_tie_ranks_from: "length (tie_ranks_from i r p ts) = length ts"
  by (induction ts arbitrary: i r p) (simp_all add: Let_def)

lemma length_tie_ranks: "length (tie_ranks ts) = length ts"
  by (cases ts) (simp_all add: length_tie_ranks_from)

lemma rank_athletes_unranked:
  "map (\<lambda>a. a\<lparr> la_rank := 0 \<rparr>) (rank_athletes xs) =
   map (\<lambda>a. a\<lparr> la_rank := 0 \<rparr>) (js_sort (\<lambda>a b. la_totalPoints b - la_totalPoints a) xs)"
proof -
  have "length ys = length rs \<Longrightarrow>
      map (\<lambda>a. a\<lparr> la_rank := 0 \<rparr>) (map2 (\<lambda>a r. a\<lparr> la_rank := r \<rparr>) ys rs) =
      map (\<lambda>a. a\<lparr> la_rank := 0 \<rparr>) ys" for ys :: "LeaderboardAthlete list" and rs
    by (induction ys rs rule: list_induct2) simp_all
  then show ?thesis
    by (simp add: rank_athletes_def Let_def length_tie_ranks)
qed

lemma rank_athletes_mset:
  "image_mset (\<lambda>a. a\<lparr> la_rank := 0 \<rparr>) (mset (rank_athletes xs)) =
   image_mset (\<lambda>a. a\<lparr> la_rank := 0 \<rparr>) (mset xs)"
proof -
  have "mset (map (\<lambda>a. a\<lparr> la_rank := 0 \<rparr>) (rank_athletes xs)) =
        mset (map (\<lambda>a. a\<lparr> la_rank := 0 \<rparr>) (js_sort (\<lambda>a b. la_totalPoints b - la_totalPoints a) xs))"
    by (simp only: rank_athletes_unranked)
  then show ?thesis by (simp add: mset_js_sort)
qed

lemma division_athlete_origin:
  assumes "d \<in> set (divisionGroups m)" and "a \<in> set (dl_athletes d)"
  shows "\<exists>ka \<in> set m. a\<lparr> la_rank := 0 \<rparr> = to_leaderboard_athlete (snd ka) \<and> divisionId (snd ka) = dl_id d"
proof -
  from assms(1) obtain k members where
    g: "(k, members) \<in> set (group_pairs (map (\<lambda>(k, a). (divisionId a, a)) m))"
    and d: "d = \<lparr> dl_id = k, dl_name = (case members of [] \<Rightarrow> [] | a # _ \<Rightarrow> divisionLabel a),
         dl_athletes = rank_athletes (map to_leaderboard_athlete members) \<rparr>"
    by (auto simp: divisionGroups_def)
  from g have members: "members = map snd (filter (\<lambda>kv. fst kv = k) (map (\<lambda>(k, a). (divisionId a, a)) m))"
    by (simp add: group_pairs_member)
  from assms(2) d have "a \<in> set (rank_athletes (map to_leaderboard_athlete members))" by simp
  then have "a\<lparr> la_rank := 0 \<rparr> \<in># image_mset (\<lambda>a. a\<lparr> la_rank := 0 \<rparr>) (mset (rank_athletes (map to_leaderboard_athlete members)))"
    by simp
  then have "a\<lparr> la_rank := 0 \<rparr> \<in># image_mset (\<lambda>a. a\<lparr> la_rank := 0 \<rparr>) (mset (map to_leaderboard_athlete members))"
    by (simp only: rank_athletes_mset)
  then obtain a0 where a0: "a0 \<in> set members" "a\<lparr> la_rank := 0 \<rparr> = (to_leaderboard_athlete a0)\<lparr> la_rank := 0 \<rparr>"
    by auto
  then have "a\<lparr> la_rank := 0 \<rparr> = to_leaderboard_athlete a0"
    by (simp add: to_leaderboard_athlete_def)
  moreover from a0(1) members obtain k0 where "(k0, a0) \<in> set m" "divisionId a0 = k" by auto
  ultimately show ?thesis using d by force
qed

lemma getLeaderboard_cases:
  assumes "getLeaderboard E db = Inr out"
  shows "\<exists>c. q_comp db = Some c \<and>
     (out = empty_response c \<or>
      out = leaderboard_of c (q_events db)
        (compute_events E (q_events db) (q_allScores db) (built E (q_registrations db))))"
  using assms
  by (auto simp: getLeaderboard_def build_athleteMap_eq built_def split: option.splits if_splits)


lemma sample_leaderboard: "getLeaderboard sample_engine sample_db = Inr sample_out"
  unfolding sample_out_def by code_simp

lemma tie_ranks_from_nth:
  "j < length ts \<Longrightarrow>
   tie_ranks_from i r p ts ! j =
     (if ts ! j < (if j = 0 then p else ts ! (j - 1)) then int (i + j) + 1
      else if j = 0 then r else tie_ranks_from i r p ts ! (j - 1))"
proof (induction ts arbitrary: i r p j)
  case Nil
  then show ?case by simp
next
  case (Cons t ts)
  show ?case
  proof (cases j)
    case 0
    then show ?thesis by (simp add: Let_def)
  next
    case (Suc j')
    then have "j' < length ts" using Cons.prems by simp
    from Cons.IH [OF this, of "Suc i" "if t < p then int i + 1 else r" t]
    show ?thesis using Suc by (cases j') (simp_all add: Let_def)
  qed
qed

lemma tie_ranks_nth:
  "j < length ts \<Longrightarrow>
   tie_ranks ts ! j =
     (if j = 0 then 1
      else if ts ! j < ts ! (j - 1) then int j + 1 else tie_ranks ts ! (j - 1))"
proof (cases ts)
  case Nil
  assume "j < length ts"
  then show ?thesis using Nil by simp
next
  case (Cons t ts')
  assume j: "j < length ts"
  show ?thesis
  proof (cases j)
    case 0
    then show ?thesis using Cons by simp
  next
    case (Suc j')
    then have "j' < length ts'" using j Cons by simp
    from tie_ranks_from_nth [OF this, of 1 1 t]
    show ?thesis using Suc Cons by (cases j') simp_all
  qed
qed

lemma js_sort_desc_nth:
  assumes "0 < i" and "i < length xs"
  shows "f (js_sort (\<lambda>a b. f b - f a) xs ! i) \<le> (f (js_sort (\<lambda>a b. f b - f a) xs ! (i - 1)) :: int)"
proof -
  let ?s = "sort_key (\<lambda>x. - f x) xs"
  have "sorted (map (\<lambda>x. - f x) ?s)" by (rule sorted_sort_key)
  moreover have "i - 1 \<le> i" "i < length (map (\<lambda>x. - f x) ?s)" using assms by simp_all
  ultimately have "map (\<lambda>x. - f x) ?s ! (i - 1) \<le> map (\<lambda>x. - f x) ?s ! i"
    by (rule sorted_nth_mono)
  then show ?thesis using assms by (simp add: js_sort_desc)
qed

lemma rank_athletes_totals:
  "map la_totalPoints (rank_athletes xs) =
   map la_totalPoints (js_sort (\<lambda>a b. la_totalPoints b - la_totalPoints a) xs)"
proof -
  have "length ys = length rs \<Longrightarrow>
      map la_totalPoints (map2 (\<lambda>a r. a\<lparr> la_rank := r \<rparr>) ys rs) = map la_totalPoints ys"
    for ys :: "LeaderboardAthlete list" and rs
    by (induction ys rs rule: list_induct2) simp_all
  then show ?thesis by (simp add: rank_athletes_def Let_def length_tie_ranks)
qed

lemma rank_athletes_ranks:
  "map la_rank (rank_athletes xs) = tie_ranks (map la_totalPoints (rank_athletes xs))"
proof -
  have "length ys = length rs \<Longrightarrow>
      map la_rank (map2 (\<lambda>a r. a\<lparr> la_rank := r \<rparr>) ys rs) = rs"
    for ys :: "LeaderboardAthlete list" and rs
    by (induction ys rs rule: list_induct2) simp_all
  then show ?thesis
    unfolding rank_athletes_totals by (simp add: rank_athletes_def Let_def length_tie_ranks)
qed

lemma rank_gyms_totals:
  "map totalScore (rank_gyms gs) =
   map totalScore (js_sort (\<lambda>a b. totalScore b - totalScore a) (filter (\<lambda>g. athleteCount g > 0) gs))"
proof -
  have "length ys = length rs \<Longrightarrow>
      map totalScore (map2 (\<lambda>g r. g\<lparr> gl_rank := r \<rparr>) ys rs) = map totalScore ys"
    for ys :: "GymLeaderboard list" and rs
    by (induction ys rs rule: list_induct2) simp_all
  then show ?thesis by (simp add: rank_gyms_def Let_def length_tie_ranks)
qed

lemma rank_gyms_ranks:
  "map gl_rank (rank_gyms gs) = tie_ranks (map totalScore (rank_gyms gs))"
proof -
  have "length ys = length rs \<Longrightarrow>
      map gl_rank (map2 (\<lambda>g r. g\<lparr> gl_rank := r \<rparr>) ys rs) = rs"
    for ys :: "GymLeaderboard list" and rs
    by (induction ys rs rule: list_induct2) simp_all
  then show ?thesis
    unfolding rank_gyms_totals by (simp add: rank_gyms_def Let_def length_tie_ranks)
qed

lemma tie_ranked_sorted:
  assumes "\<And>i. 0 < i \<Longrightarrow> i < length ts \<Longrightarrow> ts ! i \<le> ts ! (i - 1)"
  shows "tie_ranked ts (tie_ranks ts)"
  unfolding tie_ranked_def
proof (intro conjI allI impI)
  show "length (tie_ranks ts) = length ts" by (rule length_tie_ranks)
next
  fix i assume "i < length ts" "i = 0"
  then show "tie_ranks ts ! i = 1" using tie_ranks_nth [of i ts] by simp
next
  fix i assume "i < length ts" "0 < i"
  then show "ts ! i \<le> ts ! (i - 1)" using assms by simp
next
  fix i assume "i < length ts" "0 < i" "ts ! i = ts ! (i - 1)"
  then show "tie_ranks ts ! i = tie_ranks ts ! (i - 1)" using tie_ranks_nth [of i ts] by simp
next
  fix i assume "i < length ts" "0 < i" "ts ! i < ts ! (i - 1)"
  then show "tie_ranks ts ! i = int i + 1" using tie_ranks_nth [of i ts] by simp
qed

lemma tie_ranked_athletes:
  "tie_ranked (map la_totalPoints (rank_athletes xs)) (map la_rank (rank_athletes xs))"
  unfolding rank_athletes_ranks
proof (rule tie_ranked_sorted)
  fix i assume "0 < i" "i < length (map la_totalPoints (rank_athletes xs))"
  then show "map la_totalPoints (rank_athletes xs) ! i \<le> map la_totalPoints (rank_athletes xs) ! (i - 1)"
    unfolding rank_athletes_totals
    using js_sort_desc_nth [of i xs la_totalPoints] by (simp add: length_js_sort)
qed

lemma tie_ranked_gyms:
  "tie_ranked (map totalScore (rank_gyms gs)) (map gl_rank (rank_gyms gs))"
  unfolding rank_gyms_ranks
proof (rule tie_ranked_sorted)
  fix i assume "0 < i" "i < length (map totalScore (rank_gyms gs))"
  then show "map totalScore (rank_gyms gs) ! i \<le> map totalScore (rank_gyms gs) ! (i - 1)"
    unfolding rank_gyms_totals
    using js_sort_desc_nth [of i "filter (\<lambda>g. athleteCount g > 0) gs" totalScore]
    by (simp add: length_js_sort)
qed

lemma get_prop_own:
  "parsed \<noteq> Null \<Longrightarrow> parsed \<noteq> Undefined \<Longrightarrow> get_prop parsed k = Inr (own_property parsed k)"
  by (cases parsed) (simp_all add: own_property_def)

lemma own_property_falsy: "parsed = Null \<or> parsed = Undefined \<Longrightarrow> \<not> truthy (own_property parsed k)"
  by (auto simp: own_property_def)

lemma parseAffiliateName_try_eq:
  assumes "JSON_parse E m = Some parsed"
  shows "(case parseAffiliateName_try E m of Inl e \<Rightarrow> Unaffiliated | Inr v \<Rightarrow> v) =
     (if truthy (own_property parsed ''affiliateName'')
      then own_property parsed ''affiliateName''
      else (case first_of_affiliates parsed of None \<Rightarrow> Unaffiliated | Some first \<Rightarrow> first))"
proof (cases "parsed = Null \<or> parsed = Undefined")
  case True
  then show ?thesis
    using assms by (auto simp: parseAffiliateName_try_def own_property_def first_of_affiliates_def)
next
  case False
  then have gp: "\<And>k. get_prop parsed k = Inr (own_property parsed k)"
    by (simp add: get_prop_own)
  show ?thesis
  proof (cases "truthy (own_property parsed ''affiliateName'')")
    case True
    then show ?thesis using assms by (simp add: parseAffiliateName_try_def gp)
  next
    case nt: False
    show ?thesis
    proof (cases "own_property parsed ''affiliates''")
      case (Obj ps)
      then show ?thesis using assms nt
        by (simp add: parseAffiliateName_try_def gp first_of_affiliates_def
            split: list.split jsval.split prod.split)
    next
      case (Arr xs)
      then show ?thesis using assms nt
        by (simp add: parseAffiliateName_try_def gp first_of_affiliates_def
            split: list.split jsval.split)
    next
      case (Str s)
      then show ?thesis using assms nt
        by (cases s) (simp_all add: parseAffiliateName_try_def gp first_of_affiliates_def)
    qed (use assms nt in \<open>simp_all add: parseAffiliateName_try_def gp first_of_affiliates_def
            split: list.split jsval.split\<close>)
  qed
qed

lemma keyed_built: "keyed (built E regs)"
  unfolding keyed_def list_all_iff
  by (auto simp: distinct_built athlete_of_registration_def make_athlete_def dest!: built_values)

lemma keyed_static:
  assumes "map (\<lambda>(k, a). (k, static a)) m' = map (\<lambda>(k, a). (k, static a)) m" and "keyed m"
  shows "keyed m'"
proof -
  have keys: "map fst m' = map fst m"
  proof -
    have "map fst (map (\<lambda>(k, a). (k, static a)) m') = map fst (map (\<lambda>(k, a). (k, static a)) m)"
      by (simp only: assms(1))
    then show ?thesis by (simp add: case_prod_unfold comp_def)
  qed
  have "map (\<lambda>ka. userId (snd ka)) m' = map (\<lambda>ka. userId (snd ka)) m"
  proof -
    have "map (\<lambda>ka. userId (snd ka)) (map (\<lambda>(k, a). (k, static a)) m') =
          map (\<lambda>ka. userId (snd ka)) (map (\<lambda>(k, a). (k, static a)) m)"
      by (simp only: assms(1))
    then show ?thesis by (simp add: case_prod_unfold comp_def static_def)
  qed
  moreover have "map (\<lambda>ka. userId (snd ka)) m = map fst m"
    using assms(2) by (simp add: keyed_def list_all_iff)
  ultimately have "map (\<lambda>ka. userId (snd ka)) m' = map fst m'" using keys by simp
  then have "list_all (\<lambda>ka. userId (snd ka) = fst ka) m'"
    by (simp add: list_all_iff map_eq_conv [symmetric] del: map_eq_conv)
  then show ?thesis using keys assms(2) by (simp add: keyed_def)
qed

lemma keyed_compute_events: "keyed m \<Longrightarrow> keyed (compute_events E evs allScores m)"
  by (rule keyed_static [OF static_compute_events])

lemma keyed_userIds: "keyed m \<Longrightarrow> map (\<lambda>ka. userId (snd ka)) m = map fst m"
  by (simp add: keyed_def list_all_iff)

lemma unrank_to_leaderboard_athlete:
  "(to_leaderboard_athlete a)\<lparr> la_rank := 0 \<rparr> = to_leaderboard_athlete a"
  by (simp add: to_leaderboard_athlete_def)

lemma ranked_groups_mset:
  "image_mset (\<lambda>a. a\<lparr> la_rank := 0 \<rparr>)
     (mset (concat (map (\<lambda>(d, ms). rank_athletes (map to_leaderboard_athlete ms)) G))) =
   image_mset to_leaderboard_athlete (mset (concat (map snd G)))"
proof (induction G)
  case Nil
  then show ?case by simp
next
  case (Cons g G)
  obtain d ms where g: "g = (d, ms)" by (cases g)
  have "image_mset (\<lambda>a. a\<lparr> la_rank := 0 \<rparr>) (mset (rank_athletes (map to_leaderboard_athlete ms))) =
        image_mset to_leaderboard_athlete (mset ms)"
    unfolding rank_athletes_mset
    by (simp add: multiset.map_comp comp_def unrank_to_leaderboard_athlete)
  then show ?case using Cons.IH g by simp
qed

lemma division_athletes_mset:
  "image_mset (\<lambda>a. a\<lparr> la_rank := 0 \<rparr>) (mset (concat (map dl_athletes (divisionGroups m)))) =
   image_mset to_leaderboard_athlete (mset (map snd m))"
proof -
  have "map dl_athletes (divisionGroups m) =
      map (\<lambda>(d, ms). rank_athletes (map to_leaderboard_athlete ms))
        (group_pairs (map (\<lambda>(k, a). (divisionId a, a)) m))"
    by (simp add: divisionGroups_def case_prod_unfold comp_def)
  moreover have "mset (concat (map snd (group_pairs (map (\<lambda>(k, a). (divisionId a, a)) m)))) =
      mset (map snd m)"
    unfolding mset_group_pairs by (simp add: case_prod_unfold comp_def)
  ultimately show ?thesis
    using ranked_groups_mset [of "group_pairs (map (\<lambda>(k, a). (divisionId a, a)) m)"]
    by (simp only:)
qed

lemma division_userIds:
  assumes "keyed m"
  shows "mset (map la_userId (concat (map dl_athletes (divisionGroups m)))) = mset (map fst m)"
proof -
  have "image_mset la_userId (image_mset (\<lambda>a. a\<lparr> la_rank := 0 \<rparr>)
          (mset (concat (map dl_athletes (divisionGroups m))))) =
        image_mset la_userId (image_mset to_leaderboard_athlete (mset (map snd m)))"
    by (simp only: division_athletes_mset)
  then have "image_mset la_userId (mset (concat (map dl_athletes (divisionGroups m)))) =
        image_mset (\<lambda>ka. userId (snd ka)) (mset m)"
    by (simp add: multiset.map_comp comp_def to_leaderboard_athlete_def)
  moreover have "image_mset (\<lambda>ka. userId (snd ka)) (mset m) = mset (map fst m)"
    using keyed_userIds [OF assms] by (metis mset_map)
  ultimately show ?thesis by simp
qed

lemma distinct_count_one:
  "distinct xs \<Longrightarrow> x \<in> set xs \<Longrightarrow> length (filter (\<lambda>y. y = x) xs) = 1"
  by (induction xs) (auto simp: filter_empty_conv)

lemma gym_members_distinct:
  assumes "keyed m"
  shows "distinct (map userId (concat (map snd (gymAthleteIds m))))"
proof -
  have "mset (concat (map snd (gymAthleteIds m))) = mset (map snd m)"
    unfolding gymAthleteIds_def mset_group_pairs by (simp add: case_prod_unfold comp_def)
  then have "mset (map userId (concat (map snd (gymAthleteIds m)))) = mset (map userId (map snd m))"
    by (metis mset_map)
  moreover have "map userId (map snd m) = map fst m"
    using keyed_userIds [OF assms] by (simp add: comp_def)
  moreover have "distinct (map fst m)" using assms by (simp add: keyed_def)
  ultimately show ?thesis by (metis mset_eq_imp_distinct_iff)
qed

lemma distinct_map_concat_member:
  "distinct (map f (concat xss)) \<Longrightarrow> xs \<in> set xss \<Longrightarrow> distinct (map f xs)"
  by (induction xss) auto

lemma rank_gyms_unranked:
  "image_mset (\<lambda>g. g\<lparr> gl_rank := 0 \<rparr>) (mset (rank_gyms gs)) =
   image_mset (\<lambda>g. g\<lparr> gl_rank := 0 \<rparr>) (mset (filter (\<lambda>g. athleteCount g > 0) gs))"
proof -
  have "length ys = length rs \<Longrightarrow>
      map (\<lambda>g. g\<lparr> gl_rank := 0 \<rparr>) (map2 (\<lambda>g r. g\<lparr> gl_rank := r \<rparr>) ys rs) =
      map (\<lambda>g. g\<lparr> gl_rank := 0 \<rparr>) ys" for ys :: "GymLeaderboard list" and rs
    by (induction ys rs rule: list_induct2) simp_all
  then have "map (\<lambda>g. g\<lparr> gl_rank := 0 \<rparr>) (rank_gyms gs) =
      map (\<lambda>g. g\<lparr> gl_rank := 0 \<rparr>)
        (js_sort (\<lambda>a b. totalScore b - totalScore a) (filter (\<lambda>g. athleteCount g > 0) gs))"
    by (simp add: rank_gyms_def Let_def length_tie_ranks)
  then have "mset (map (\<lambda>g. g\<lparr> gl_rank := 0 \<rparr>) (rank_gyms gs)) =
      mset (map (\<lambda>g. g\<lparr> gl_rank := 0 \<rparr>)
        (js_sort (\<lambda>a b. totalScore b - totalScore a) (filter (\<lambda>g. athleteCount g > 0) gs)))"
    by (simp only:)
  then show ?thesis by (simp add: mset_js_sort del: mset_filter)
qed

lemma build_gym_unranked: "(build_gym R evs members)\<lparr> gl_rank := 0 \<rparr> = build_gym R evs members"
  by (simp add: build_gym_def)

lemma gym_origin:
  assumes "g \<in> set (gyms (leaderboard_of c evs m))"
  shows "\<exists>members \<in> snd ` set (gymAthleteIds m).
     g\<lparr> gl_rank := 0 \<rparr> = build_gym (divisionRankMap (divisionGroups m)) evs members"
proof -
  let ?gs = "map (\<lambda>(gymName, members). build_gym (divisionRankMap (divisionGroups m)) evs members)
      (gymAthleteIds m)"
  from assms have "g \<in> set (rank_gyms ?gs)" by (simp add: leaderboard_of_def Let_def)
  then have "g\<lparr> gl_rank := 0 \<rparr> \<in># image_mset (\<lambda>g. g\<lparr> gl_rank := 0 \<rparr>) (mset (rank_gyms ?gs))"
    by simp
  then have "g\<lparr> gl_rank := 0 \<rparr> \<in># image_mset (\<lambda>g. g\<lparr> gl_rank := 0 \<rparr>)
      (mset (filter (\<lambda>g. athleteCount g > 0) ?gs))"
    by (simp only: rank_gyms_unranked)
  then obtain g0 where "g0 \<in> set ?gs" "g\<lparr> gl_rank := 0 \<rparr> = g0\<lparr> gl_rank := 0 \<rparr>"
    by auto
  then show ?thesis by (force simp: build_gym_unranked)
qed

lemma build_gym_athletes:
  "mset (gl_athletes (build_gym R evs members)) =
   mset (map (athlete_entry R (contributingMap members evs) evs) members)"
  by (simp add: build_gym_def mset_js_sort)

lemma getLeaderboard_full:
  assumes "getLeaderboard E db = Inr out" and "q_track db \<noteq> None" and "q_events db \<noteq> []"
    and "q_registrations db \<noteq> []"
  shows "\<exists>c. out = leaderboard_of c (q_events db)
        (compute_events E (q_events db) (q_allScores db) (built E (q_registrations db)))"
  using assms
  by (auto simp: getLeaderboard_def build_athleteMap_eq built_def split: option.splits if_splits)

lemma build_athleteMap_built: "build_athleteMap E regs [] = Inr m \<Longrightarrow> m = built E regs"
  by (simp add: build_athleteMap_eq built_def)

lemma last_filter_reg:
  assumes "map_of (built E regs) uid = Some b"
  shows "b = athlete_of_registration E (last (filter (\<lambda>r. reg_userId r = uid) regs))"
  using assms by (simp add: map_of_built split: list.splits)

lemma static_fields:
  "static a = static b \<Longrightarrow>
   userId a = userId b \<and> name a = name b \<and> affiliateName a = affiliateName b \<and>
   divisionId a = divisionId b \<and> divisionLabel a = divisionLabel b"
proof -
  assume eq: "static a = static b"
  have "userId (static a) = userId (static b)" "name (static a) = name (static b)"
    "affiliateName (static a) = affiliateName (static b)" "divisionId (static a) = divisionId (static b)"
    "divisionLabel (static a) = divisionLabel (static b)"
    by (simp_all only: eq)
  then show ?thesis by (simp add: static_def)
qed

lemma final_entry_origin:
  assumes "(k, a) \<in> set (compute_events E evs allScores (built E regs))"
  shows "static a = static (athlete_of_registration E (last (filter (\<lambda>r. reg_userId r = k) regs)))"
proof -
  let ?m = "compute_events E evs allScores (built E regs)"
  from assms have "(k, static a) \<in> set (map (\<lambda>(k, a). (k, static a)) ?m)" by force
  then have "(k, static a) \<in> set (map (\<lambda>(k, a). (k, static a)) (built E regs))"
    by (simp only: static_compute_events)
  then obtain b where b: "(k, b) \<in> set (built E regs)" "static a = static b" by auto
  from b(1) have "map_of (built E regs) k = Some b"
    using distinct_built [of E regs] by simp
  from last_filter_reg [OF this] b(2) show ?thesis by simp
qed

lemma repeat_leaderboard: "getLeaderboard sample_engine repeat_db = Inr repeat_out"
  unfolding repeat_out_def by code_simp

lemma byDiv_eq:
  "byDiv members eid =
     map (\<lambda>L. (L, division_group members eid L)) (first_occ (map divisionLabel members))"
proof -
  have "map snd (filter (\<lambda>kv. fst kv = L)
          (map (\<lambda>a. (divisionLabel a, (userId a, event_points a eid))) members)) =
        division_group members eid L" for L
    by (simp add: division_group_def pair_of_def filter_map comp_def)
  then show ?thesis
    by (simp add: byDiv_def group_pairs_eq comp_def)
qed

lemma top_of_event_eq:
  "top_of_event members eid =
     concat (map (top_of_division members eid) (first_occ (map divisionLabel members)))"
proof -
  have "top_of_division members eid = (\<lambda>L. take TOP_PER_DIVISION
      (js_sort (\<lambda>a b. snd b - snd a) (division_group members eid L)))"
    by (simp add: fun_eq_iff top_of_division_def)
  then show ?thesis by (simp add: top_of_event_def byDiv_eq comp_def)
qed

lemma mset_take_subset: "mset (take n xs) \<subseteq># mset xs"
proof -
  have "mset (take n xs) + mset (drop n xs) = mset xs"
    by (metis append_take_drop_id mset_append)
  then show ?thesis by (metis mset_subset_eq_add_left)
qed

lemma top_of_division_subset:
  "mset (top_of_division members eid L) \<subseteq># mset (division_group members eid L)"
  unfolding top_of_division_def
  using mset_take_subset [of TOP_PER_DIVISION "js_sort (\<lambda>a b. snd b - snd a) (division_group members eid L)"]
  by (simp add: mset_js_sort)

lemma set_top_of_event:
  "set (top_of_event members eid) =
     (\<Union>L \<in> divisionLabel ` set members. set (top_of_division members eid L))"
  by (simp add: top_of_event_eq set_first_occ)

lemma in_division_group:
  "p \<in> set (division_group members eid L) \<longleftrightarrow>
     (\<exists>a \<in> set members. divisionLabel a = L \<and> p = pair_of eid a)"
  by (auto simp: division_group_def)

lemma distinct_division_group:
  assumes "distinct (map userId members)"
  shows "distinct (map fst (division_group members eid L))"
proof -
  have "map fst (division_group members eid L) = map userId (filter (\<lambda>a. divisionLabel a = L) members)"
    by (simp add: division_group_def pair_of_def comp_def)
  then show ?thesis using assms by (simp add: distinct_map_filter)
qed

lemma userId_inj:
  "distinct (map userId members) \<Longrightarrow> a \<in> set members \<Longrightarrow> b \<in> set members \<Longrightarrow>
   userId a = userId b \<Longrightarrow> a = b"
  by (meson distinct_map inj_on_def)

lemma pair_in_top_division:
  assumes "distinct (map userId members)" and "a \<in> set members"
    and "pair_of eid a \<in> set (top_of_division members eid L)"
  shows "L = divisionLabel a"
proof -
  have "pair_of eid a \<in> set (division_group members eid L)"
    using assms(3) top_of_division_subset [of members eid L] by (meson mset_subset_eqD in_multiset_in_set)
  then obtain b where b: "b \<in> set members" "divisionLabel b = L" "pair_of eid a = pair_of eid b"
    by (auto simp: in_division_group)
  then have "userId a = userId b" by (simp add: pair_of_def)
  with assms(1,2) b(1) have "a = b" by (rule userId_inj)
  then show ?thesis using b(2) by simp
qed

lemma user_in_top:
  assumes "distinct (map userId members)" and "a \<in> set members"
  shows "userId a \<in> fst ` set (top_of_event members eid) \<longleftrightarrow>
         pair_of eid a \<in> set (top_of_division members eid (divisionLabel a))"
proof
  assume "userId a \<in> fst ` set (top_of_event members eid)"
  then obtain p L where p: "p \<in> set (top_of_division members eid L)" "fst p = userId a"
    by (auto simp: set_top_of_event)
  then have "p \<in> set (division_group members eid L)"
    using top_of_division_subset [of members eid L] by (meson mset_subset_eqD in_multiset_in_set)
  then obtain b where b: "b \<in> set members" "p = pair_of eid b"
    by (auto simp: in_division_group)
  then have "userId a = userId b" using p(2) by (simp add: pair_of_def)
  with assms b(1) have "a = b" by (rule userId_inj)
  then have "pair_of eid a \<in> set (top_of_division members eid L)" using p(1) b(2) by simp
  moreover from pair_in_top_division [OF assms this] have "L = divisionLabel a" .
  ultimately show "pair_of eid a \<in> set (top_of_division members eid (divisionLabel a))" by simp
next
  assume "pair_of eid a \<in> set (top_of_division members eid (divisionLabel a))"
  then have "pair_of eid a \<in> set (top_of_event members eid)"
    using assms(2) by (auto simp: set_top_of_event)
  then show "userId a \<in> fst ` set (top_of_event members eid)"
    by (metis fst_conv image_eqI pair_of_def)
qed

lemma in_contributingMap:
  "(u, eid) \<in> set (contributingMap members evs) \<longleftrightarrow>
     eid \<in> ev_id ` set evs \<and> u \<in> fst ` set (top_of_event members eid)"
  by (auto simp: contributingMap_def image_iff)

lemma distinct_sub_mset:
  assumes "distinct xs" and "mset ys \<subseteq># mset xs"
  shows "distinct ys"
  unfolding distinct_count_atmost_1
proof
  fix a
  have "count (mset ys) a \<le> count (mset xs) a"
    using assms(2) by (rule mset_subset_eq_count)
  also have "\<dots> \<le> 1" using assms(1) by (simp add: distinct_count_atmost_1)
  finally have le: "count (mset ys) a \<le> 1" .
  show "count (mset ys) a = (if a \<in> set ys then 1 else 0)"
  proof (cases "a \<in> set ys")
    case True
    then have "0 < count (mset ys) a" by (simp add: count_greater_zero_iff)
    then have "count (mset ys) a = 1" using le by linarith
    then show ?thesis using True by (simp only: if_True)
  next
    case False
    then show ?thesis by (simp add: count_eq_zero_iff)
  qed
qed

lemma filter_of_sub_mset:
  assumes "distinct xs" and "mset ys \<subseteq># mset xs"
  shows "mset (filter (\<lambda>x. x \<in> set ys) xs) = mset ys"
proof -
  have dy: "distinct ys" using assms by (rule distinct_sub_mset)
  have "set ys \<subseteq> set xs" using assms(2) by (metis set_mset_mono set_mset_mset)
  then have "set (filter (\<lambda>x. x \<in> set ys) xs) = set ys" by auto
  moreover have "distinct (filter (\<lambda>x. x \<in> set ys) xs)" using assms(1) by simp
  ultimately show ?thesis using dy by (metis set_eq_iff_mset_eq_distinct)
qed

lemma distinct_pairs_group:
  "distinct (map userId members) \<Longrightarrow> distinct (division_group members eid L)"
  using distinct_division_group [of members eid L] by (simp add: distinct_map)

lemma length_top_of_division:
  "length (top_of_division members eid L) =
     min TOP_PER_DIVISION (length (filter (\<lambda>a. divisionLabel a = L) members))"
  by (simp add: top_of_division_def length_js_sort division_group_def min.commute)

lemma count_top_of_division:
  assumes "distinct (map userId members)"
  shows "length (filter (\<lambda>a. divisionLabel a = L \<and>
            pair_of eid a \<in> set (top_of_division members eid L)) members) =
         min TOP_PER_DIVISION (length (filter (\<lambda>a. divisionLabel a = L) members))"
proof -
  let ?T = "top_of_division members eid L"
  have "map (pair_of eid) (filter (\<lambda>a. divisionLabel a = L \<and> pair_of eid a \<in> set ?T) members) =
        filter (\<lambda>p. p \<in> set ?T) (division_group members eid L)"
    by (simp add: division_group_def filter_map comp_def conj_commute)
  then have "length (map (pair_of eid)
          (filter (\<lambda>a. divisionLabel a = L \<and> pair_of eid a \<in> set ?T) members)) =
        length (filter (\<lambda>p. p \<in> set ?T) (division_group members eid L))"
    by (simp only:)
  then have "length (filter (\<lambda>a. divisionLabel a = L \<and> pair_of eid a \<in> set ?T) members) =
        length (filter (\<lambda>p. p \<in> set ?T) (division_group members eid L))"
    by (simp only: length_map)
  also have "\<dots> = size (mset (filter (\<lambda>p. p \<in> set ?T) (division_group members eid L)))"
    by (simp del: mset_filter)
  also have "\<dots> = size (mset ?T)"
    by (simp only: filter_of_sub_mset [OF distinct_pairs_group [OF assms] top_of_division_subset])
  also have "\<dots> = length ?T" by simp
  finally show ?thesis by (simp add: length_top_of_division)
qed

lemma sorted_take_drop:
  assumes "sorted (map g s)" and "p \<in> set (take n s)" and "q \<in> set (drop n s)"
  shows "g p \<le> (g q :: int)"
proof -
  have "sorted (map g (take n s) @ map g (drop n s))"
    using assms(1) by (metis append_take_drop_id map_append)
  then have "\<forall>x \<in> set (map g (take n s)). \<forall>y \<in> set (map g (drop n s)). x \<le> y"
    by (simp add: sorted_append)
  then show ?thesis using assms(2,3) by simp
qed

lemma top_of_division_order:
  assumes "x \<in> set members" and "y \<in> set members"
    and "divisionLabel x = L" and "divisionLabel y = L"
    and "pair_of eid x \<in> set (top_of_division members eid L)"
    and "pair_of eid y \<notin> set (top_of_division members eid L)"
  shows "event_points y eid \<le> event_points x eid"
proof -
  let ?s = "js_sort (\<lambda>a b. snd b - snd a) (division_group members eid L)"
  have "pair_of eid y \<in> set (division_group members eid L)"
    using assms(2,4) by (auto simp: in_division_group)
  then have "pair_of eid y \<in> set ?s" by (simp add: set_js_sort)
  then have "pair_of eid y \<in> set (take TOP_PER_DIVISION ?s) \<union> set (drop TOP_PER_DIVISION ?s)"
    by (metis append_take_drop_id set_append)
  then have y: "pair_of eid y \<in> set (drop TOP_PER_DIVISION ?s)"
    using assms(6) by (simp add: top_of_division_def)
  have x: "pair_of eid x \<in> set (take TOP_PER_DIVISION ?s)"
    using assms(5) by (simp add: top_of_division_def)
  have "sorted (map (\<lambda>p. - snd p) ?s)"
    unfolding js_sort_desc by (rule sorted_sort_key)
  from sorted_take_drop [OF this x y] show ?thesis by (simp add: pair_of_def)
qed

lemma gym_event_nth:
  assumes "j < length evs"
  shows "ge_points (gym_events cm evs a ! j) = event_points a (ev_id (evs ! j))"
    and "contributing (gym_events cm evs a ! j) \<longleftrightarrow> (userId a, ev_id (evs ! j)) \<in> set cm"
    and "ge_eventId (gym_events cm evs a ! j) = ev_id (evs ! j)"
  using assms by (simp_all add: gym_events_def)

lemma entry_contributing:
  assumes "distinct (map userId members)" and "a \<in> set members" and "j < length evs"
  shows "contributing (ga_events (athlete_entry R (contributingMap members evs) evs a) ! j) \<longleftrightarrow>
         pair_of (ev_id (evs ! j)) a \<in>
           set (top_of_division members (ev_id (evs ! j)) (divisionLabel a))"
proof -
  have "ev_id (evs ! j) \<in> ev_id ` set evs" using assms(3) by simp
  then show ?thesis
    using user_in_top [OF assms(1,2), of "ev_id (evs ! j)"] assms(3)
    by (simp add: athlete_entry_def gym_event_nth in_contributingMap)
qed

lemma entry_points:
  "j < length evs \<Longrightarrow>
   ge_points (ga_events (athlete_entry R cm evs a) ! j) = event_points a (ev_id (evs ! j))"
  by (simp add: athlete_entry_def gym_event_nth)

lemma entry_division: "ga_division (athlete_entry R cm evs a) = divisionLabel a"
  by (simp add: athlete_entry_def)

lemma length_filter_mset: "mset xs = mset ys \<Longrightarrow> length (filter Q xs) = length (filter Q ys)"
  by (metis mset_filter size_mset)

lemma members_top_six:
  assumes "distinct (map userId members)" and "j < length evs"
    and "mset es = mset (map (athlete_entry R (contributingMap members evs) evs) members)"
  shows "length (filter (\<lambda>e. ga_division e = L \<and> contributing (ga_events e ! j)) es) =
           min 6 (length (filter (\<lambda>e. ga_division e = L) es))"
    and "\<forall>x \<in> set es. \<forall>y \<in> set es.
           ga_division x = L \<and> ga_division y = L \<and>
           contributing (ga_events x ! j) \<and> \<not> contributing (ga_events y ! j) \<longrightarrow>
           ge_points (ga_events y ! j) \<le> ge_points (ga_events x ! j)"
proof -
  let ?entry = "athlete_entry R (contributingMap members evs) evs"
  let ?eid = "ev_id (evs ! j)"
  have "length (filter (\<lambda>e. ga_division e = L \<and> contributing (ga_events e ! j)) es) =
        length (filter (\<lambda>e. ga_division e = L \<and> contributing (ga_events e ! j)) (map ?entry members))"
    using assms(3) by (rule length_filter_mset)
  also have "\<dots> = length (filter (\<lambda>a. divisionLabel a = L \<and>
        contributing (ga_events (?entry a) ! j)) members)"
    by (simp add: filter_map comp_def entry_division)
  also have "filter (\<lambda>a. divisionLabel a = L \<and> contributing (ga_events (?entry a) ! j)) members =
      filter (\<lambda>a. divisionLabel a = L \<and> pair_of ?eid a \<in> set (top_of_division members ?eid L)) members"
    by (rule filter_cong [OF refl]) (auto simp: entry_contributing [OF assms(1) _ assms(2)])
  also have "length \<dots> = min TOP_PER_DIVISION (length (filter (\<lambda>a. divisionLabel a = L) members))"
    by (rule count_top_of_division [OF assms(1)])
  also have "length (filter (\<lambda>a. divisionLabel a = L) members) =
      length (filter (\<lambda>e. ga_division e = L) (map ?entry members))"
    by (simp add: filter_map comp_def entry_division)
  also have "\<dots> = length (filter (\<lambda>e. ga_division e = L) es)"
    using assms(3) [symmetric] by (rule length_filter_mset)
  finally show "length (filter (\<lambda>e. ga_division e = L \<and> contributing (ga_events e ! j)) es) =
           min 6 (length (filter (\<lambda>e. ga_division e = L) es))"
    by (simp add: TOP_PER_DIVISION_def)
  have set_es: "set es = ?entry ` set members"
    using assms(3) by (metis set_mset_mset set_map)
  show "\<forall>x \<in> set es. \<forall>y \<in> set es.
           ga_division x = L \<and> ga_division y = L \<and>
           contributing (ga_events x ! j) \<and> \<not> contributing (ga_events y ! j) \<longrightarrow>
           ge_points (ga_events y ! j) \<le> ge_points (ga_events x ! j)"
  proof (intro ballI impI)
    fix x y assume "x \<in> set es" "y \<in> set es"
    then obtain a b where a: "a \<in> set members" "x = ?entry a" and b: "b \<in> set members" "y = ?entry b"
      unfolding set_es by blast
    assume h: "ga_division x = L \<and> ga_division y = L \<and>
           contributing (ga_events x ! j) \<and> \<not> contributing (ga_events y ! j)"
    then have la: "divisionLabel a = L" and lb: "divisionLabel b = L"
      using a(2) b(2) by (simp_all add: entry_division)
    from h have "pair_of ?eid a \<in> set (top_of_division members ?eid L)"
      and "pair_of ?eid b \<notin> set (top_of_division members ?eid L)"
      using entry_contributing [OF assms(1) a(1) assms(2), of R]
        entry_contributing [OF assms(1) b(1) assms(2), of R] a(2) b(2) la lb by simp_all
    from top_of_division_order [OF a(1) b(1) la lb this]
    show "ge_points (ga_events y ! j) \<le> ge_points (ga_events x ! j)"
      using a(2) b(2) assms(2) by (simp add: entry_points)
  qed
qed

lemma top_groups_subset:
  "mset (concat (map (\<lambda>(d, divAthletes). take n (js_sort c divAthletes)) G)) \<subseteq>#
   mset (concat (map snd G))"
proof (induction G)
  case Nil
  then show ?case by simp
next
  case (Cons g G)
  obtain d xs where g: "g = (d, xs)" by (cases g)
  have "mset (take n (js_sort c xs)) \<subseteq># mset xs"
    using mset_take_subset [of n "js_sort c xs"] by (simp add: mset_js_sort)
  then show ?case using Cons.IH g by (simp add: subset_mset.add_mono)
qed

lemma top_of_event_subset:
  "mset (top_of_event members eid) \<subseteq># mset (map (pair_of eid) members)"
proof -
  have "mset (concat (map snd (byDiv members eid))) = mset (map (pair_of eid) members)"
    unfolding byDiv_def mset_group_pairs
    by (simp add: comp_def pair_of_def [abs_def])
  then show ?thesis
    unfolding top_of_event_def
    using top_groups_subset [of TOP_PER_DIVISION "\<lambda>a b. snd b - snd a" "byDiv members eid"]
    by simp
qed

lemma pair_in_top_event:
  assumes "distinct (map userId members)" and "a \<in> set members"
  shows "userId a \<in> fst ` set (top_of_event members eid) \<longleftrightarrow>
         pair_of eid a \<in> set (top_of_event members eid)"
proof
  assume "userId a \<in> fst ` set (top_of_event members eid)"
  then have "pair_of eid a \<in> set (top_of_division members eid (divisionLabel a))"
    by (simp add: user_in_top [OF assms])
  then show "pair_of eid a \<in> set (top_of_event members eid)"
    using assms(2) by (auto simp: set_top_of_event)
next
  assume "pair_of eid a \<in> set (top_of_event members eid)"
  then show "userId a \<in> fst ` set (top_of_event members eid)"
    by (metis fst_conv image_eqI pair_of_def)
qed

lemma foldl_contributing:
  "foldl (\<lambda>t ge. if contributing ge then t + ge_points ge else t) t0 ges =
     t0 + sum_list (map ge_points (filter contributing ges))"
  by (induction ges arbitrary: t0) simp_all

lemma contributing_sum_eq:
  "contributing_sum ges = sum_list (map ge_points (filter contributing ges))"
  by (simp add: contributing_sum_def foldl_contributing)

lemma foldl_add_snd: "foldl (\<lambda>t c. t + snd c) t0 cs = (t0 :: int) + sum_list (map snd cs)"
  by (induction cs arbitrary: t0) simp_all

lemma gym_totalScore_eq:
  "gym_totalScore members evs =
     sum_list (map (\<lambda>ev. sum_list (map snd (top_of_event members (ev_id ev)))) evs)"
proof -
  have "foldl (\<lambda>total ev. foldl (\<lambda>t c. t + snd c) total (top_of_event members (ev_id ev))) t0 evs =
        t0 + sum_list (map (\<lambda>ev. sum_list (map snd (top_of_event members (ev_id ev)))) evs)" for t0
    by (induction evs arbitrary: t0) (simp_all add: foldl_add_snd)
  then show ?thesis by (simp add: gym_totalScore_def)
qed

lemma entry_total:
  "contributingTotal (athlete_entry R cm evs a) =
     sum_list (map (\<lambda>ev. if (userId a, ev_id ev) \<in> set cm then event_points a (ev_id ev) else 0) evs)"
proof -
  have "map ge_points (filter contributing (gym_events cm evs a)) =
        map (\<lambda>ev. event_points a (ev_id ev)) (filter (\<lambda>ev. (userId a, ev_id ev) \<in> set cm) evs)"
    by (simp add: gym_events_def filter_map comp_def)
  then show ?thesis
    by (simp add: athlete_entry_def contributing_sum_eq sum_list_map_filter')
qed

lemma sum_list_swap:
  "sum_list (map (\<lambda>a. sum_list (map (X a) ys)) xs) =
   sum_list (map (\<lambda>y. sum_list (map (\<lambda>a. X a y) xs)) ys)" for X :: "'a \<Rightarrow> 'b \<Rightarrow> int"
proof (induction xs)
  case Nil
  then show ?case by simp
next
  case (Cons x xs)
  then show ?case by (simp add: sum_list_addf)
qed

lemma event_contribution:
  assumes "distinct (map userId members)" and "ev \<in> set evs"
  shows "sum_list (map (\<lambda>a. if (userId a, ev_id ev) \<in> set (contributingMap members evs)
                        then event_points a (ev_id ev) else 0) members) =
         sum_list (map snd (top_of_event members (ev_id ev)))"
proof -
  let ?eid = "ev_id ev"
  let ?T = "top_of_event members ?eid"
  let ?P = "map (pair_of ?eid) members"
  have flag: "(userId a, ?eid) \<in> set (contributingMap members evs) \<longleftrightarrow> pair_of ?eid a \<in> set ?T"
    if "a \<in> set members" for a
    using assms(2) pair_in_top_event [OF assms(1) that, of ?eid]
    by (simp add: in_contributingMap)
  have eq: "map (\<lambda>a. if (userId a, ?eid) \<in> set (contributingMap members evs)
                        then event_points a ?eid else 0) members =
        map (\<lambda>a. if pair_of ?eid a \<in> set ?T then snd (pair_of ?eid a) else 0) members"
    by (rule map_cong [OF refl]) (simp add: flag pair_of_def)
  have "sum_list (map (\<lambda>a. if (userId a, ?eid) \<in> set (contributingMap members evs)
                        then event_points a ?eid else 0) members) =
        sum_list (map (\<lambda>a. if pair_of ?eid a \<in> set ?T then snd (pair_of ?eid a) else 0) members)"
    by (simp only: eq)
  also have "\<dots> = sum_list (map (\<lambda>p. if p \<in> set ?T then snd p else 0) ?P)"
    by (simp add: comp_def)
  also have "\<dots> = sum_list (map snd (filter (\<lambda>p. p \<in> set ?T) ?P))"
    by (simp add: sum_list_map_filter')
  also have "\<dots> = sum_mset (image_mset snd (mset (filter (\<lambda>p. p \<in> set ?T) ?P)))"
    by (metis mset_map sum_mset_sum_list)
  also have "mset (filter (\<lambda>p. p \<in> set ?T) ?P) = mset ?T"
  proof (rule filter_of_sub_mset)
    have "map fst ?P = map userId members" by (simp add: pair_of_def comp_def)
    then have "distinct (map fst ?P)" using assms(1) by (simp only:)
    then show "distinct ?P" by (simp only: distinct_map)
    show "mset ?T \<subseteq># mset ?P" by (rule top_of_event_subset)
  qed
  also have "sum_mset (image_mset snd (mset ?T)) = sum_list (map snd ?T)"
    by (metis mset_map sum_mset_sum_list)
  finally show ?thesis .
qed

lemma members_total:
  assumes "distinct (map userId members)"
  shows "sum_list (map (\<lambda>a. contributingTotal (athlete_entry R (contributingMap members evs) evs a))
            members) = gym_totalScore members evs"
proof -
  let ?X = "\<lambda>a ev. if (userId a, ev_id ev) \<in> set (contributingMap members evs)
                        then event_points a (ev_id ev) else 0"
  have "sum_list (map (\<lambda>a. contributingTotal (athlete_entry R (contributingMap members evs) evs a))
            members) = sum_list (map (\<lambda>a. sum_list (map (?X a) evs)) members)"
    by (simp add: entry_total)
  also have "\<dots> = sum_list (map (\<lambda>ev. sum_list (map (\<lambda>a. ?X a ev) members)) evs)"
    by (rule sum_list_swap)
  also have "map (\<lambda>ev. sum_list (map (\<lambda>a. ?X a ev) members)) evs =
      map (\<lambda>ev. sum_list (map snd (top_of_event members (ev_id ev)))) evs"
    by (rule map_cong [OF refl]) (rule event_contribution [OF assms])
  finally show ?thesis by (simp add: gym_totalScore_eq)
qed

lemma sum_list_map_mset:
  "mset xs = mset ys \<Longrightarrow> sum_list (map f xs) = (sum_list (map f ys) :: int)"
  by (metis mset_map sum_mset_sum_list)

lemma gym_of_output:
  assumes "getLeaderboard E db = Inr out" and "g \<in> set (gyms out)"
  shows "\<exists>members R. distinct (map userId members) \<and>
           g\<lparr> gl_rank := 0 \<rparr> = build_gym R (q_events db) members"
proof -
  let ?m = "compute_events E (q_events db) (q_allScores db) (built E (q_registrations db))"
  from getLeaderboard_cases [OF assms(1)] assms(2) obtain c where
    "out = leaderboard_of c (q_events db) ?m"
    by (auto simp: empty_response_def)
  with gym_origin [of g c "q_events db" ?m] assms(2) obtain members where
    mem: "members \<in> snd ` set (gymAthleteIds ?m)"
    and g: "g\<lparr> gl_rank := 0 \<rparr> = build_gym (divisionRankMap (divisionGroups ?m)) (q_events db) members"
    by auto
  have "keyed ?m" by (rule keyed_compute_events [OF keyed_built])
  from mem have "members \<in> set (map snd (gymAthleteIds ?m))" by simp
  with gym_members_distinct [OF \<open>keyed ?m\<close>] have "distinct (map userId members)"
    by (rule distinct_map_concat_member)
  with g show ?thesis by blast
qed

lemma gym_fields:
  assumes "g\<lparr> gl_rank := 0 \<rparr> = build_gym R evs members"
  shows "mset (gl_athletes g) =
           mset (map (athlete_entry R (contributingMap members evs) evs) members)"
    and "totalScore g = gym_totalScore members evs"
proof -
  have "gl_athletes g = gl_athletes (build_gym R evs members)"
    and "totalScore g = totalScore (build_gym R evs members)"
    using arg_cong [OF assms, of gl_athletes] arg_cong [OF assms, of totalScore] by simp_all
  then show "mset (gl_athletes g) =
           mset (map (athlete_entry R (contributingMap members evs) evs) members)"
    and "totalScore g = gym_totalScore members evs"
    by (simp_all add: build_gym_athletes) (simp add: build_gym_def)
qed

lemma seven_leaderboard: "getLeaderboard sample_engine seven_db = Inr seven_out"
  unfolding seven_out_def by code_simp

lemma length_received: "length (received k ps) = count (mset (map fst ps)) k"
  by (induction ps) (auto simp: received_Cons)

lemma count_map_filter:
  "count (mset (map f xs)) k = length (filter (\<lambda>x. f x = k) xs)"
  by (induction xs) auto

lemma event_pushes_count:
  "count (mset (map fst (event_pushes E allScores m ev))) k \<le>
     length (filter (\<lambda>s. sc_userId s = k \<and> competitionEventId s = Some (ev_id ev) \<and>
               counted_status (sc_status s)) allScores)"
proof -
  let ?Q = "\<lambda>s. competitionEventId s = Some (ev_id ev) \<and> map_of m (sc_userId s) \<noteq> None"
  have "map se_userId (filter (\<lambda>s. counted_status (se_status s)) (map snd (event_entries ev allScores m))) =
        map sc_userId (filter (\<lambda>s. counted_status (sc_status s) \<and> ?Q s) allScores)"
    unfolding event_entries_eq
    by (simp add: filter_map comp_def to_entry_def conj_commute)
  then have "mset (map fst (event_pushes E allScores m ev)) =
        mset (map sc_userId (filter (\<lambda>s. counted_status (sc_status s) \<and> ?Q s) allScores))"
    using event_pushes_users [of E allScores m ev] by (simp only:)
  then have "count (mset (map fst (event_pushes E allScores m ev))) k =
        length (filter (\<lambda>s. sc_userId s = k) (filter (\<lambda>s. counted_status (sc_status s) \<and> ?Q s) allScores))"
    by (simp only: count_map_filter)
  also have "\<dots> = length (filter (\<lambda>s. map_of m (sc_userId s) \<noteq> None)
        (filter (\<lambda>s. sc_userId s = k \<and> competitionEventId s = Some (ev_id ev) \<and>
               counted_status (sc_status s)) allScores))"
    by (simp add: conj_commute conj_left_commute cong: conj_cong)
  also have "\<dots> \<le> length (filter (\<lambda>s. sc_userId s = k \<and> competitionEventId s = Some (ev_id ev) \<and>
               counted_status (sc_status s)) allScores)"
    by (rule length_filter_le)
  finally show ?thesis .
qed

lemma received_at_most_one:
  assumes "length (filter (\<lambda>s. sc_userId s = k \<and> competitionEventId s = Some (ev_id ev) \<and>
               counted_status (sc_status s)) allScores) \<le> 1"
  shows "received k (event_pushes E allScores m ev) = [] \<or>
         (\<exists>r. received k (event_pushes E allScores m ev) = [r] \<and> eventId r = ev_id ev)"
proof -
  let ?rs = "received k (event_pushes E allScores m ev)"
  have "length ?rs \<le> 1"
    using event_pushes_count [of E allScores m ev k] assms by (simp add: length_received)
  then have "?rs = [] \<or> (\<exists>r. ?rs = [r])"
    by (cases ?rs) (auto simp: length_Suc_conv)
  moreover have "eventId r = ev_id ev" if "r \<in> set ?rs" for r
  proof -
    from that obtain ur where "ur \<in> set (event_pushes E allScores m ev)" "r = snd ur"
      by (auto simp: received_def)
    then show ?thesis using event_pushes_eventId by blast
  qed
  ultimately show ?thesis by auto
qed

lemma events_of_user:
  assumes "\<forall>a. (k, a) \<in> set m \<longrightarrow> events a = []"
  shows "one_score_per_event evs k allScores \<Longrightarrow> distinct (map ev_id evs) \<Longrightarrow>
         (k, a) \<in> set (compute_events E evs allScores m) \<Longrightarrow>
         map eventId (events a) = map ev_id evs"
proof (induction evs arbitrary: a rule: rev_induct)
  case Nil
  then show ?case using assms by (simp add: compute_events_Nil)
next
  case (snoc ev evs)
  let ?m = "compute_events E evs allScores m"
  from snoc.prems(1) have one: "one_score_per_event evs k allScores"
    and here: "length (filter (\<lambda>s. sc_userId s = k \<and> competitionEventId s = Some (ev_id ev) \<and>
               counted_status (sc_status s)) allScores) \<le> 1"
    by (simp_all add: one_score_per_event_def)
  from snoc.prems(2) have d: "distinct (map ev_id evs)" and fresh: "ev_id ev \<notin> set (map ev_id evs)"
    by simp_all
  from snoc.prems(3) obtain a0 where a0: "(k, a0) \<in> set ?m"
    and a: "a = after_event ev (received k (event_pushes E allScores ?m ev)) a0"
    unfolding compute_events_snoc by (auto simp: process_event_eq)
  have "map eventId (events a0) = map ev_id evs" by (rule snoc.IH [OF one d a0])
  then show ?case
    unfolding a using fresh received_at_most_one [OF here] by (rule after_event_ids)
qed

lemma built_events_empty: "(k, a) \<in> set (built E regs) \<Longrightarrow> events a = []"
  by (auto simp: athlete_of_registration_def make_athlete_def dest!: built_values)

lemma mixed_leaderboard: "getLeaderboard sample_engine mixed_db = Inr mixed_out"
  unfolding mixed_out_def by code_simp

lemma open_leaderboard: "getLeaderboard sample_engine open_db = Inr open_out"
  unfolding open_out_def by code_simp

section \<open>Properties\<close>

text \<open>
  C9. For every integer rank \<open>r \<ge> 1\<close>, \<open>calculateTraditionalPoints r\<close> is
  \<open>max 0 (100 - 5 * (r - 1))\<close>; for every rank \<open>r \<le> 0\<close> it is 100.
\<close>

theorem calculateTraditionalPoints_ladder:
  "(1 \<le> r \<longrightarrow> calculateTraditionalPoints r = max 0 (100 - 5 * (r - 1))) \<and>
   (r \<le> 0 \<longrightarrow> calculateTraditionalPoints r = 100)"
  by (simp add: calculateTraditionalPoints_def TRADITIONAL_FIRST_PLACE_def
      TRADITIONAL_STEP_def mult.commute)

theorem calculateTraditionalPoints_ladder_witness:
  "(1::int) \<le> 3 \<and> calculateTraditionalPoints 3 = 90 \<and>
   (1::int) \<le> 25 \<and> calculateTraditionalPoints 25 = 0 \<and>
   (0::int) \<le> 0 \<and> calculateTraditionalPoints 0 = 100"
  using calculateTraditionalPoints_ladder [of 3] calculateTraditionalPoints_ladder [of 25]
    calculateTraditionalPoints_ladder [of 0]
  by simp

text \<open>
  C2. The claim: on every sorted list of active entries the ranks are
  non-decreasing and start at 1, an entry whose comparison key (sort key when both
  entries carry one, else the value with a missing value read as 0) equals its
  predecessor's gets the predecessor's rank, and an entry whose key differs gets
  its 1-based position. The comparator of the sort reads a missing value as 0, but
  \<^verbatim>\<open>assignRanks\<close> uses null as the mark of "no previous entry": after an entry
  without value and without sort key, an entry with the value 7 keeps rank 1,
  although the comparator puts it strictly behind (key 0 against key 7) and the
  claim gives it rank 2. The list below is sorted by the comparator, whatever the
  engine.
\<close>

theorem assignRanks_null_value_tie:
  "compare_active E unscored_entry seven_entry < 0 \<and>
   js_sort (compare_active E) [seven_entry, unscored_entry] = [unscored_entry, seven_entry] \<and>
   js_sort (compare_active E) [unscored_entry, seven_entry] = [unscored_entry, seven_entry] \<and>
   map snd (assignRanks [unscored_entry, seven_entry]) = [1, 1]"
  by (simp add: compare_active_def value_or_zero_def unscored_entry_def seven_entry_def
      assignRanks_def js_sort_def)



text \<open>
  C1. The claim: every athlete of the leaderboard has exactly one result per
  published event, and the total is the sum of the points of the results. The
  code pushes one result per score row with a ranked status, so a user with two
  such rows for one event has two results for it (\<open>duplicate_db\<close>). Amended:
  for every athlete of the leaderboard the total is the sum of the points of the
  results; and when the published events have distinct ids and the athlete's user
  has at most one score row with status \<^verbatim>\<open>scored\<close>, \<^verbatim>\<open>cap\<close> or \<^verbatim>\<open>dnf\<close>
  for each published event, the event ids of the athlete's results are the ids of
  the published events, in order. Another user's duplicate rows do not matter.
\<close>

theorem athlete_events_and_total:
  assumes "getLeaderboard E db = Inr out"
    and "d \<in> set (divisions out)"
    and "a \<in> set (dl_athletes d)"
  shows "la_totalPoints a = sum_list (map points (la_events a)) \<and>
         (distinct (map ev_id (q_events db)) \<and>
          one_score_per_event (q_events db) (la_userId a) (q_allScores db) \<longrightarrow>
          map eventId (la_events a) = map ev_id (q_events db))"
proof -
  let ?m = "compute_events E (q_events db) (q_allScores db) (built E (q_registrations db))"
  from getLeaderboard_cases [OF assms(1)] assms(2)
  have "d \<in> set (divisionGroups ?m)"
    by (auto simp: empty_response_def leaderboard_of_def Let_def)
  from division_athlete_origin [OF this assms(3)]
  obtain ka where ka: "ka \<in> set ?m" "a\<lparr> la_rank := 0 \<rparr> = to_leaderboard_athlete (snd ka)"
    by blast
  have ev: "la_events a = events (snd ka)" and tot: "la_totalPoints a = totalPoints (snd ka)"
    and uid: "la_userId a = userId (snd ka)"
    using arg_cong [OF ka(2), of la_events] arg_cong [OF ka(2), of la_totalPoints]
      arg_cong [OF ka(2), of la_userId]
    by (simp_all add: to_leaderboard_athlete_def)
  have "totals_ok ?m"
    by (rule totals_ok_compute_events [OF totals_ok_built])
  then have one: "la_totalPoints a = sum_list (map points (la_events a))"
    using ka(1) ev tot by (auto simp: totals_ok_def)
  have "keyed ?m" by (rule keyed_compute_events [OF keyed_built])
  then have "userId (snd ka) = fst ka" using ka(1) by (simp add: keyed_def list_all_iff)
  then have mem: "(la_userId a, snd ka) \<in> set ?m" using ka(1) uid by (metis prod.collapse)
  have two: "map eventId (la_events a) = map ev_id (q_events db)"
    if "distinct (map ev_id (q_events db))"
      and "one_score_per_event (q_events db) (la_userId a) (q_allScores db)"
  proof -
    have "\<forall>a'. (la_userId a, a') \<in> set (built E (q_registrations db)) \<longrightarrow> events a' = []"
      using built_events_empty by blast
    from events_of_user [OF this that(2) that(1) mem] show ?thesis by (simp add: ev)
  qed
  from one two show ?thesis by blast
qed

theorem athlete_events_and_total_witness:
  "getLeaderboard sample_engine mixed_db = Inr mixed_out \<and>
   distinct (map ev_id (q_events mixed_db)) \<and>
   one_score_per_event (q_events mixed_db) ''w'' (q_allScores mixed_db) \<and>
   la_userId (dl_athletes (divisions mixed_out ! 0) ! 2) = ''w'' \<and>
   map eventId (la_events (dl_athletes (divisions mixed_out ! 0) ! 2)) = [''e1''] \<and>
   la_totalPoints (dl_athletes (divisions mixed_out ! 0) ! 2) = 95 \<and>
   la_userId (dl_athletes (divisions mixed_out ! 1) ! 0) = ''z'' \<and>
   map points (la_events (dl_athletes (divisions mixed_out ! 1) ! 0)) = [100, 95] \<and>
   la_totalPoints (dl_athletes (divisions mixed_out ! 1) ! 0) = 195"
proof -
  have h2: "distinct (map ev_id (q_events mixed_db))" by code_simp
  have h3: "one_score_per_event (q_events mixed_db) ''w'' (q_allScores mixed_db)" by code_simp
  have d0: "divisions mixed_out ! 0 \<in> set (divisions mixed_out)"
    and d1: "divisions mixed_out ! 1 \<in> set (divisions mixed_out)"
    by (simp_all add: mixed_out_def)
  have a0: "dl_athletes (divisions mixed_out ! 0) ! 2 \<in> set (dl_athletes (divisions mixed_out ! 0))"
    and a1: "dl_athletes (divisions mixed_out ! 1) ! 0 \<in> set (dl_athletes (divisions mixed_out ! 1))"
    by (simp_all add: mixed_out_def)
  have w: "la_userId (dl_athletes (divisions mixed_out ! 0) ! 2) = ''w''"
    and z: "la_userId (dl_athletes (divisions mixed_out ! 1) ! 0) = ''z''"
    and ids: "map ev_id (q_events mixed_db) = [''e1'']"
    and pw: "sum_list (map points (la_events (dl_athletes (divisions mixed_out ! 0) ! 2))) = 95"
    and pz: "map points (la_events (dl_athletes (divisions mixed_out ! 1) ! 0)) = [100, 95]"
    by (simp_all add: mixed_out_def mixed_db_def sample_db_def sample_event_def)
  from athlete_events_and_total [OF mixed_leaderboard d0 a0]
  have tw: "la_totalPoints (dl_athletes (divisions mixed_out ! 0) ! 2) = 95"
    and ew: "map eventId (la_events (dl_athletes (divisions mixed_out ! 0) ! 2)) = [''e1'']"
    using h2 h3 unfolding w pw ids by blast+
  from athlete_events_and_total [OF mixed_leaderboard d1 a1]
  have "la_totalPoints (dl_athletes (divisions mixed_out ! 1) ! 0) =
      sum_list (map points (la_events (dl_athletes (divisions mixed_out ! 1) ! 0)))"
    by (rule conjunct1)
  then have tz: "la_totalPoints (dl_athletes (divisions mixed_out ! 1) ! 0) = 195"
    unfolding pz by simp
  show ?thesis using mixed_leaderboard h2 h3 w ew tw z pz tz by (intro conjI) assumption+
qed

theorem athlete_events_counterexample:
  "getLeaderboard sample_engine duplicate_db = Inr duplicate_out \<and>
   map ev_id (q_events duplicate_db) = [''e1''] \<and>
   map eventId (la_events (dl_athletes (divisions duplicate_out ! 0) ! 0)) = [''e1'', ''e1'']"
proof -
  have "getLeaderboard sample_engine duplicate_db = Inr duplicate_out"
    unfolding duplicate_out_def by code_simp
  moreover have "map ev_id (q_events duplicate_db) = [''e1'']" by code_simp
  moreover have "map eventId (la_events (dl_athletes (divisions duplicate_out ! 0) ! 0)) = [''e1'', ''e1'']"
    by (simp add: duplicate_out_def)
  ultimately show ?thesis by simp
qed

text \<open>
  C7. When the competition exists but has no programming track, or no published
  event, or no registration with a status other than \<^verbatim>\<open>REMOVED\<close>,
  \<^verbatim>\<open>getLeaderboard\<close> succeeds with the competition and empty lists of divisions
  and gyms.
\<close>

theorem empty_short_circuits:
  assumes "q_comp db = Some c"
    and "q_track db = None \<or> q_events db = [] \<or> q_registrations db = []"
  shows "getLeaderboard E db = Inr \<lparr> competition = c, divisions = [], gyms = [] \<rparr>"
  using assms by (auto simp: getLeaderboard_def empty_response_def)

theorem empty_short_circuits_witness:
  "getLeaderboard sample_engine (sample_db\<lparr> q_track := None \<rparr>) =
     Inr \<lparr> competition = \<lparr> comp_id = ''comp_1'', comp_name = ''Open'' \<rparr>, divisions = [], gyms = [] \<rparr> \<and>
   getLeaderboard sample_engine (sample_db\<lparr> q_events := [] \<rparr>) =
     Inr \<lparr> competition = \<lparr> comp_id = ''comp_1'', comp_name = ''Open'' \<rparr>, divisions = [], gyms = [] \<rparr> \<and>
   getLeaderboard sample_engine (sample_db\<lparr> q_registrations := [] \<rparr>) =
     Inr \<lparr> competition = \<lparr> comp_id = ''comp_1'', comp_name = ''Open'' \<rparr>, divisions = [], gyms = [] \<rparr>"
proof -
  let ?c = "\<lparr> comp_id = ''comp_1'', comp_name = ''Open'' \<rparr>"
  have c: "q_comp (sample_db\<lparr> q_track := None \<rparr>) = Some ?c"
    "q_comp (sample_db\<lparr> q_events := [] \<rparr>) = Some ?c"
    "q_comp (sample_db\<lparr> q_registrations := [] \<rparr>) = Some ?c"
    by (simp_all add: sample_db_def)
  have t: "q_track (sample_db\<lparr> q_track := None \<rparr>) = None \<or> q_events (sample_db\<lparr> q_track := None \<rparr>) = [] \<or>
      q_registrations (sample_db\<lparr> q_track := None \<rparr>) = []" by simp
  have e: "q_track (sample_db\<lparr> q_events := [] \<rparr>) = None \<or> q_events (sample_db\<lparr> q_events := [] \<rparr>) = [] \<or>
      q_registrations (sample_db\<lparr> q_events := [] \<rparr>) = []" by simp
  have r: "q_track (sample_db\<lparr> q_registrations := [] \<rparr>) = None \<or> q_events (sample_db\<lparr> q_registrations := [] \<rparr>) = [] \<or>
      q_registrations (sample_db\<lparr> q_registrations := [] \<rparr>) = []" by simp
  show ?thesis
    using empty_short_circuits [OF c(1) t, of sample_engine]
      empty_short_circuits [OF c(2) e, of sample_engine]
      empty_short_circuits [OF c(3) r, of sample_engine]
    by (intro conjI) assumption+
qed

text \<open>
  C6. In every division leaderboard (athletes by descending total points) and in
  the gym leaderboard (gyms by descending total score) the ranks follow the tie
  rule \<open>tie_ranked\<close>: rank 1 first, equal adjacent totals share a rank, a strictly
  lower total has its 1-based position as rank.
\<close>

theorem ties_share_rank:
  assumes "getLeaderboard E db = Inr out"
  shows "(\<forall>d \<in> set (divisions out).
            tie_ranked (map la_totalPoints (dl_athletes d)) (map la_rank (dl_athletes d))) \<and>
         tie_ranked (map totalScore (gyms out)) (map gl_rank (gyms out))"
proof -
  from getLeaderboard_cases [OF assms] obtain c where
    "out = empty_response c \<or>
     out = leaderboard_of c (q_events db)
        (compute_events E (q_events db) (q_allScores db) (built E (q_registrations db)))"
    by blast
  then show ?thesis
  proof
    assume "out = empty_response c"
    then show ?thesis by (simp add: empty_response_def tie_ranked_def)
  next
    assume "out = leaderboard_of c (q_events db)
        (compute_events E (q_events db) (q_allScores db) (built E (q_registrations db)))"
    then show ?thesis
      by (auto simp: leaderboard_of_def Let_def divisionGroups_def tie_ranked_athletes tie_ranked_gyms)
  qed
qed

theorem ties_share_rank_witness:
  "getLeaderboard sample_engine sample_db = Inr sample_out \<and>
   map la_totalPoints (dl_athletes (divisions sample_out ! 0)) = [100, 100, 95] \<and>
   map la_rank (dl_athletes (divisions sample_out ! 0)) = [1, 1, 3] \<and>
   tie_ranked [100, 100, 95] [1, 1, 3] \<and>
   map totalScore (gyms sample_out) = [200, 195] \<and>
   map gl_rank (gyms sample_out) = [1, 2] \<and>
   tie_ranked [200, 195] [1, 2]"
proof -
  have d: "divisions sample_out ! 0 \<in> set (divisions sample_out)"
    by (simp add: sample_out_def)
  have t: "map la_totalPoints (dl_athletes (divisions sample_out ! 0)) = [100, 100, 95]"
    and r: "map la_rank (dl_athletes (divisions sample_out ! 0)) = [1, 1, 3]"
    and gt: "map totalScore (gyms sample_out) = [200, 195]"
    and gr: "map gl_rank (gyms sample_out) = [1, 2]"
    by (simp_all add: sample_out_def)
  from ties_share_rank [OF sample_leaderboard] d
  have "tie_ranked (map la_totalPoints (dl_athletes (divisions sample_out ! 0)))
          (map la_rank (dl_athletes (divisions sample_out ! 0)))"
    and "tie_ranked (map totalScore (gyms sample_out)) (map gl_rank (gyms sample_out))"
    by blast+
  then have "tie_ranked [100, 100, 95] [1, 1, 3]" and "tie_ranked [200, 195] [1, 2]"
    unfolding t r gt gr by - assumption+
  then show ?thesis using sample_leaderboard t r gt gr by (intro conjI) assumption+
qed

text \<open>
  C8. The claim: \<^verbatim>\<open>parseAffiliateName\<close> never raises; it returns the default
  for a metadata that is null, is not JSON, or parses to a value with no truthy
  \<^verbatim>\<open>affiliateName\<close> and no \<^verbatim>\<open>affiliates\<close> map whose first value is a string,
  and the extracted name otherwise. The code reads \<^verbatim>\<open>affiliates\<close> through
  \<^verbatim>\<open>Object.values\<close> without asking for a map, so for
  \<^verbatim>\<open>{"affiliates":"abc"}\<close> it returns the string's first character.
  Amended: the function always returns, and what it returns is
  \<open>lenient_affiliate\<close>, where a truthy \<^verbatim>\<open>affiliates\<close> that is an object, an
  array or a string yields its first value, element or character when that is a
  string. The empty text is not JSON, which is the hypothesis on the engine.
\<close>

theorem parseAffiliateName_lenient:
  assumes "JSON_parse E [] = None"
  shows "parseAffiliateName E md = Inr (lenient_affiliate E md)"
proof (cases md)
  case None
  then show ?thesis by (simp add: parseAffiliateName_def lenient_affiliate_def)
next
  case (Some m)
  show ?thesis
  proof (cases "JSON_parse E m")
    case None
    then show ?thesis using Some
      by (simp add: parseAffiliateName_def lenient_affiliate_def parseAffiliateName_try_def)
  next
    case (Some parsed)
    then have "m \<noteq> []" using assms by auto
    moreover have "parseAffiliateName E (Some m) =
        Inr (case parseAffiliateName_try E m of Inl e \<Rightarrow> Unaffiliated | Inr v \<Rightarrow> v)"
      using \<open>m \<noteq> []\<close> by (simp add: parseAffiliateName_def split: sum.split)
    ultimately show ?thesis
      using \<open>md = Some m\<close> Some parseAffiliateName_try_eq [OF Some]
      by (simp add: lenient_affiliate_def)
  qed
qed

theorem parseAffiliateName_lenient_witness:
  "JSON_parse text_engine [] = None \<and>
   parseAffiliateName text_engine (Some affiliates_text) = Inr (Str ''a'') \<and>
   parseAffiliateName text_engine (Some ''null'') = Inr (Str ''Unaffiliated'') \<and>
   parseAffiliateName text_engine (Some ''{oops'') = Inr (Str ''Unaffiliated'') \<and>
   JSON_parse sample_engine [] = None \<and>
   parseAffiliateName sample_engine (Some (metadata_of_gym ''North'')) = Inr (Str ''North'')"
proof -
  have h: "JSON_parse text_engine [] = None" by code_simp
  have h': "JSON_parse sample_engine [] = None" by code_simp
  have e1: "lenient_affiliate text_engine (Some affiliates_text) = Str ''a''" by code_simp
  have e2: "lenient_affiliate text_engine (Some ''null'') = Str ''Unaffiliated''" by code_simp
  have e3: "lenient_affiliate text_engine (Some ''{oops'') = Str ''Unaffiliated''" by code_simp
  have e4: "lenient_affiliate sample_engine (Some (metadata_of_gym ''North'')) = Str ''North''"
    by code_simp
  show ?thesis
    using parseAffiliateName_lenient [OF h, of "Some affiliates_text"]
      parseAffiliateName_lenient [OF h, of "Some ''null''"]
      parseAffiliateName_lenient [OF h, of "Some ''{oops''"]
      parseAffiliateName_lenient [OF h', of "Some (metadata_of_gym ''North'')"]
    unfolding e1 e2 e3 e4 using h h' by (intro conjI) assumption+
qed

theorem parseAffiliateName_counterexample:
  "JSON_parse text_engine affiliates_text = Some (Obj [(''affiliates'', Str ''abc'')]) \<and>
   parseAffiliateName text_engine (Some affiliates_text) = Inr (Str ''a'') \<and>
   claimed_affiliate text_engine (Some affiliates_text) = Str ''Unaffiliated''"
  by code_simp

text \<open>
  C10. When the leaderboard is computed (a track, an event and a registration
  exist), every registered user id has exactly one athlete across all division
  leaderboards; that athlete carries the name, the affiliate name and the
  division of the last registration with that user id; the user ids held by
  \<^verbatim>\<open>gymAthleteIds\<close> are distinct over all gyms, and every gym's athlete list is,
  up to its order, the list of entries of its members.
\<close>

theorem one_athlete_per_user:
  assumes "getLeaderboard E db = Inr out" and "q_track db \<noteq> None" and "q_events db \<noteq> []"
    and "build_athleteMap E (q_registrations db) [] = Inr athleteMap"
    and "reg \<in> set (q_registrations db)"
  shows "length (filter (\<lambda>a. la_userId a = reg_userId reg)
           (concat (map dl_athletes (divisions out)))) = 1 \<and>
    (\<forall>d \<in> set (divisions out). \<forall>a \<in> set (dl_athletes d).
       la_userId a = reg_userId reg \<longrightarrow>
         la_name a =
           fullName (last (filter (\<lambda>r. reg_userId r = reg_userId reg) (q_registrations db))) \<and>
         parseAffiliateName E
           (metadata (last (filter (\<lambda>r. reg_userId r = reg_userId reg) (q_registrations db)))) =
           Inr (la_affiliateName a) \<and>
         dl_id d =
           or_default (reg_divisionId
             (last (filter (\<lambda>r. reg_userId r = reg_userId reg) (q_registrations db)))) ''open'') \<and>
    distinct (map userId (concat (map snd
       (gymAthleteIds (compute_events E (q_events db) (q_allScores db) athleteMap))))) \<and>
    (\<forall>g \<in> set (gyms out).
       \<exists>members \<in> snd ` set (gymAthleteIds (compute_events E (q_events db) (q_allScores db) athleteMap)).
         mset (gl_athletes g) =
         mset (map (athlete_entry (divisionRankMap (divisions out))
                 (contributingMap members (q_events db)) (q_events db)) members))"
proof -
  let ?regs = "q_registrations db"
  let ?uid = "reg_userId reg"
  let ?last = "last (filter (\<lambda>r. reg_userId r = ?uid) ?regs)"
  let ?m = "compute_events E (q_events db) (q_allScores db) (built E ?regs)"
  have m0: "athleteMap = built E ?regs" using assms(4) by (rule build_athleteMap_built)
  have "?regs \<noteq> []" using assms(5) by auto
  from getLeaderboard_full [OF assms(1-3) this] obtain c where
    out: "out = leaderboard_of c (q_events db) ?m" by blast
  have divs: "divisions out = divisionGroups ?m"
    by (simp add: out leaderboard_of_def Let_def)
  have keyed: "keyed ?m" by (rule keyed_compute_events [OF keyed_built])
  have keys: "map fst ?m = map fst (built E ?regs)" by (rule keys_compute_events)
  let ?all = "concat (map dl_athletes (divisions out))"
  have ids: "mset (map la_userId ?all) = mset (map fst (built E ?regs))"
    unfolding divs using division_userIds [OF keyed] keys by simp
  have "distinct (map fst (built E ?regs))" by (rule distinct_built)
  then have d: "distinct (map la_userId ?all)" using ids by (metis mset_eq_imp_distinct_iff)
  have "?uid \<in> set (map fst (built E ?regs))"
    unfolding keys_built using assms(5) by (rule imageI)
  then have "?uid \<in> set (map la_userId ?all)" using ids by (metis set_mset_mset)
  from distinct_count_one [OF d this]
  have one: "length (filter (\<lambda>a. la_userId a = ?uid) ?all) = 1"
    by (simp add: filter_map comp_def)
  have two: "la_name a = fullName ?last \<and>
        parseAffiliateName E (metadata ?last) = Inr (la_affiliateName a) \<and>
        dl_id d = or_default (reg_divisionId ?last) ''open''"
    if dm: "d \<in> set (divisions out)" and am: "a \<in> set (dl_athletes d)" and u: "la_userId a = ?uid"
    for d a
  proof -
    from division_athlete_origin [of d ?m a] dm am divs
    obtain ka where ka: "ka \<in> set ?m" "a\<lparr> la_rank := 0 \<rparr> = to_leaderboard_athlete (snd ka)"
      "divisionId (snd ka) = dl_id d" by auto
    have fields: "la_userId a = userId (snd ka)" "la_name a = name (snd ka)"
      "la_affiliateName a = affiliateName (snd ka)"
      using arg_cong [OF ka(2), of la_userId] arg_cong [OF ka(2), of la_name]
        arg_cong [OF ka(2), of la_affiliateName]
      by (simp_all add: to_leaderboard_athlete_def)
    have "userId (snd ka) = fst ka" using keyed ka(1) by (simp add: keyed_def list_all_iff)
    then have "(?uid, snd ka) \<in> set ?m" using ka(1) fields(1) u by (metis prod.collapse)
    from static_fields [OF final_entry_origin [OF this]]
    have "name (snd ka) = fullName ?last" "affiliateName (snd ka) = parsed_affiliate E ?last"
      "divisionId (snd ka) = or_default (reg_divisionId ?last) ''open''"
      by (simp_all add: athlete_of_registration_def make_athlete_def)
    then show ?thesis using fields ka(3) by (simp add: parseAffiliateName_parsed)
  qed
  have three: "distinct (map userId (concat (map snd (gymAthleteIds ?m))))"
    by (rule gym_members_distinct [OF keyed])
  have four: "\<exists>members \<in> snd ` set (gymAthleteIds ?m).
         mset (gl_athletes g) =
         mset (map (athlete_entry (divisionRankMap (divisions out))
                 (contributingMap members (q_events db)) (q_events db)) members)"
    if "g \<in> set (gyms out)" for g
  proof -
    from gym_origin [of g c "q_events db" ?m] that out
    obtain members where mem: "members \<in> snd ` set (gymAthleteIds ?m)"
      and g: "g\<lparr> gl_rank := 0 \<rparr> = build_gym (divisionRankMap (divisionGroups ?m)) (q_events db) members"
      by auto
    have "gl_athletes g = gl_athletes (build_gym (divisionRankMap (divisionGroups ?m)) (q_events db) members)"
      using arg_cong [OF g, of gl_athletes] by simp
    then show ?thesis using mem build_gym_athletes divs by auto
  qed
  show ?thesis
    unfolding m0 using one two three four by blast
qed

theorem one_athlete_per_user_witness:
  "getLeaderboard sample_engine repeat_db = Inr repeat_out \<and>
   map reg_userId (q_registrations repeat_db) = [''x'', ''y'', ''x''] \<and>
   length (filter (\<lambda>a. la_userId a = ''x'') (concat (map dl_athletes (divisions repeat_out)))) = 1 \<and>
   la_userId (dl_athletes (divisions repeat_out ! 0) ! 0) = ''x'' \<and>
   la_name (dl_athletes (divisions repeat_out ! 0) ! 0) = ''Xavier'' \<and>
   fullName (q_registrations repeat_db ! 2) = ''Xavier''"
proof -
  have h2: "q_track repeat_db \<noteq> None" and h3: "q_events repeat_db \<noteq> []"
    by (simp_all add: repeat_db_def sample_db_def)
  have h5: "q_registrations repeat_db ! 0 \<in> set (q_registrations repeat_db)"
    by (simp add: repeat_db_def)
  have u: "reg_userId (q_registrations repeat_db ! 0) = ''x''"
    by (simp add: repeat_db_def reg_of_def)
  have ids: "map reg_userId (q_registrations repeat_db) = [''x'', ''y'', ''x'']" by code_simp
  have a: "la_userId (dl_athletes (divisions repeat_out ! 0) ! 0) = ''x''"
    "la_name (dl_athletes (divisions repeat_out ! 0) ! 0) = ''Xavier''"
    by (simp_all add: repeat_out_def)
  have n: "fullName (q_registrations repeat_db ! 2) = ''Xavier''" by code_simp
  from one_athlete_per_user [OF repeat_leaderboard h2 h3 build_athleteMap_eq h5]
  have "length (filter (\<lambda>a. la_userId a = reg_userId (q_registrations repeat_db ! 0))
           (concat (map dl_athletes (divisions repeat_out)))) = 1"
    by (rule conjunct1)
  then have "length (filter (\<lambda>a. la_userId a = ''x'') (concat (map dl_athletes (divisions repeat_out)))) = 1"
    unfolding u .
  then show ?thesis using repeat_leaderboard ids a n by (intro conjI) assumption+
qed

text \<open>
  C4. The claim: for every team, event and division, at most 6 of the team's
  athletes in that division are marked contributing for the event, and they are
  the 6 highest scoring of the team's athletes in that division. The division
  leaderboards are keyed by the division id, but the gym builder groups a team's
  athletes by the division label, and two divisions can carry one label: in
  \<open>open_db\<close> the six athletes of North in division \<^verbatim>\<open>lvl_1\<close> (label Open)
  share the six places with the athlete of North who has no division (default
  label Open), and P6, one of the six athletes of its division, does not
  contribute. Amended, with the division of the gym view, which is the
  \<^verbatim>\<open>division\<close> field of the entry (the label): for every gym of the
  leaderboard, every published event (the one at index \<open>j\<close>, which is the event
  of the \<open>j\<close>-th record of every entry) and every division label \<open>L\<close>, the number
  of the gym's athletes with that label marked contributing for the event is the
  smaller of 6 and the number of the gym's athletes with that label, and every
  contributing athlete with the label has at least the points of every
  non-contributing one, so the contributing athletes are the highest scoring ones
  among the gym's athletes with that label.
\<close>

theorem top_six_contribute:
  assumes "getLeaderboard E db = Inr out" and "g \<in> set (gyms out)"
    and "j < length (q_events db)"
  shows "length (filter (\<lambda>e. ga_division e = L \<and> contributing (ga_events e ! j)) (gl_athletes g)) =
           min 6 (length (filter (\<lambda>e. ga_division e = L) (gl_athletes g))) \<and>
         (\<forall>x \<in> set (gl_athletes g). \<forall>y \<in> set (gl_athletes g).
           ga_division x = L \<and> ga_division y = L \<and>
           contributing (ga_events x ! j) \<and> \<not> contributing (ga_events y ! j) \<longrightarrow>
           ge_points (ga_events y ! j) \<le> ge_points (ga_events x ! j)) \<and>
         (\<forall>e \<in> set (gl_athletes g). ge_eventId (ga_events e ! j) = ev_id (q_events db ! j))"
proof -
  from gym_of_output [OF assms(1,2)] obtain members R where
    d: "distinct (map userId members)" and g: "g\<lparr> gl_rank := 0 \<rparr> = build_gym R (q_events db) members"
    by blast
  let ?entry = "athlete_entry R (contributingMap members (q_events db)) (q_events db)"
  have "set (gl_athletes g) = ?entry ` set members"
    using gym_fields(1) [OF g] by (metis set_mset_mset set_map)
  then have "\<forall>e \<in> set (gl_athletes g). ge_eventId (ga_events e ! j) = ev_id (q_events db ! j)"
    using assms(3) by (auto simp: athlete_entry_def gym_event_nth)
  with members_top_six [OF d assms(3) gym_fields(1) [OF g]] show ?thesis by blast
qed

theorem top_six_contribute_witness:
  "getLeaderboard sample_engine seven_db = Inr seven_out \<and>
   length (filter (\<lambda>e. ga_division e = ''A'') (gl_athletes (gyms seven_out ! 0))) = 7 \<and>
   length (filter (\<lambda>e. ga_division e = ''A'' \<and> contributing (ga_events e ! 0))
     (gl_athletes (gyms seven_out ! 0))) = 6 \<and>
   map (\<lambda>e. (ge_points (ga_events e ! 0), contributing (ga_events e ! 0)))
     (gl_athletes (gyms seven_out ! 0)) =
   [(100, True), (95, True), (90, True), (85, True), (80, True), (75, True), (70, False)]"
proof -
  have g: "gyms seven_out ! 0 \<in> set (gyms seven_out)" by (simp add: seven_out_def)
  have j: "0 < length (q_events seven_db)" by (simp add: seven_db_def sample_db_def)
  have n: "length (filter (\<lambda>e. ga_division e = ''A'') (gl_athletes (gyms seven_out ! 0))) = 7"
    by (simp add: seven_out_def)
  have l: "map (\<lambda>e. (ge_points (ga_events e ! 0), contributing (ga_events e ! 0)))
     (gl_athletes (gyms seven_out ! 0)) =
     [(100, True), (95, True), (90, True), (85, True), (80, True), (75, True), (70, False)]"
    by (simp add: seven_out_def)
  from top_six_contribute [OF seven_leaderboard g j, of "''A''"]
  have "length (filter (\<lambda>e. ga_division e = ''A'' \<and> contributing (ga_events e ! 0))
     (gl_athletes (gyms seven_out ! 0))) =
     min 6 (length (filter (\<lambda>e. ga_division e = ''A'') (gl_athletes (gyms seven_out ! 0))))"
    by (rule conjunct1)
  then have "length (filter (\<lambda>e. ga_division e = ''A'' \<and> contributing (ga_events e ! 0))
     (gl_athletes (gyms seven_out ! 0))) = 6"
    unfolding n by simp
  then show ?thesis using seven_leaderboard n l by (intro conjI) assumption+
qed

theorem top_six_contribute_counterexample:
  "getLeaderboard sample_engine open_db = Inr open_out \<and>
   dl_id (divisions open_out ! 0) = ''lvl_1'' \<and>
   map la_name (dl_athletes (divisions open_out ! 0)) =
     [''P1'', ''P2'', ''P3'', ''P4'', ''P5'', ''P6''] \<and>
   map la_affiliateName (dl_athletes (divisions open_out ! 0)) =
     [Str ''North'', Str ''North'', Str ''North'', Str ''North'', Str ''North'', Str ''North''] \<and>
   gl_name (gyms open_out ! 0) = Str ''North'' \<and>
   ga_name (gl_athletes (gyms open_out ! 0) ! 6) = ''P6'' \<and>
   ge_eventId (ga_events (gl_athletes (gyms open_out ! 0) ! 6) ! 0) = ''e1'' \<and>
   \<not> contributing (ga_events (gl_athletes (gyms open_out ! 0) ! 6) ! 0)"
proof -
  have "dl_id (divisions open_out ! 0) = ''lvl_1''"
    and "map la_name (dl_athletes (divisions open_out ! 0)) =
      [''P1'', ''P2'', ''P3'', ''P4'', ''P5'', ''P6'']"
    and "map la_affiliateName (dl_athletes (divisions open_out ! 0)) =
      [Str ''North'', Str ''North'', Str ''North'', Str ''North'', Str ''North'', Str ''North'']"
    and "gl_name (gyms open_out ! 0) = Str ''North''"
    and "ga_name (gl_athletes (gyms open_out ! 0) ! 6) = ''P6''"
    and "ge_eventId (ga_events (gl_athletes (gyms open_out ! 0) ! 6) ! 0) = ''e1''"
    and "\<not> contributing (ga_events (gl_athletes (gyms open_out ! 0) ! 6) ! 0)"
    by (simp_all add: open_out_def)
  with open_leaderboard show ?thesis by (intro conjI) assumption+
qed

text \<open>
  C5. For every gym of the leaderboard, each athlete entry's contributing total
  is the sum of the points of exactly the events marked contributing in the entry,
  and the gym's total score is the sum of the contributing totals of its entries.
\<close>

theorem gym_totals:
  assumes "getLeaderboard E db = Inr out" and "g \<in> set (gyms out)"
  shows "(\<forall>e \<in> set (gl_athletes g).
            contributingTotal e = sum_list (map ge_points (filter contributing (ga_events e)))) \<and>
         totalScore g = sum_list (map contributingTotal (gl_athletes g))"
proof -
  from gym_of_output [OF assms] obtain members R where
    d: "distinct (map userId members)" and g: "g\<lparr> gl_rank := 0 \<rparr> = build_gym R (q_events db) members"
    by blast
  let ?entry = "athlete_entry R (contributingMap members (q_events db)) (q_events db)"
  have ms: "mset (gl_athletes g) = mset (map ?entry members)" by (rule gym_fields(1) [OF g])
  have "set (gl_athletes g) = ?entry ` set members"
    using ms by (metis set_mset_mset set_map)
  then have one: "\<forall>e \<in> set (gl_athletes g).
            contributingTotal e = sum_list (map ge_points (filter contributing (ga_events e)))"
    by (auto simp: athlete_entry_def contributing_sum_eq)
  have "sum_list (map contributingTotal (gl_athletes g)) =
        sum_list (map contributingTotal (map ?entry members))"
    using ms by (rule sum_list_map_mset)
  also have "\<dots> = gym_totalScore members (q_events db)"
    using members_total [OF d, of R "q_events db"] by (simp add: comp_def)
  finally have "totalScore g = sum_list (map contributingTotal (gl_athletes g))"
    using gym_fields(2) [OF g] by simp
  with one show ?thesis by blast
qed

theorem gym_totals_witness:
  "getLeaderboard sample_engine sample_db = Inr sample_out \<and>
   map contributingTotal (gl_athletes (gyms sample_out ! 1)) = [100, 95] \<and>
   totalScore (gyms sample_out ! 1) = 195 \<and>
   map contributingTotal (gl_athletes (gyms seven_out ! 0)) = [100, 95, 90, 85, 80, 75, 0] \<and>
   totalScore (gyms seven_out ! 0) = 525"
proof -
  have g: "gyms sample_out ! 1 \<in> set (gyms sample_out)" by (simp add: sample_out_def)
  have g7: "gyms seven_out ! 0 \<in> set (gyms seven_out)" by (simp add: seven_out_def)
  have c: "map contributingTotal (gl_athletes (gyms sample_out ! 1)) = [100, 95]"
    by (simp add: sample_out_def)
  have c7: "map contributingTotal (gl_athletes (gyms seven_out ! 0)) = [100, 95, 90, 85, 80, 75, 0]"
    by (simp add: seven_out_def)
  from gym_totals [OF sample_leaderboard g]
  have "totalScore (gyms sample_out ! 1) =
      sum_list (map contributingTotal (gl_athletes (gyms sample_out ! 1)))"
    by (rule conjunct2)
  then have t: "totalScore (gyms sample_out ! 1) = 195" unfolding c by simp
  from gym_totals [OF seven_leaderboard g7]
  have "totalScore (gyms seven_out ! 0) =
      sum_list (map contributingTotal (gl_athletes (gyms seven_out ! 0)))"
    by (rule conjunct2)
  then have t7: "totalScore (gyms seven_out ! 0) = 525" unfolding c7 by simp
  show ?thesis using sample_leaderboard c t c7 t7 by (intro conjI) assumption+
qed

end
